theory Spec2Isabelle
  imports Complex_Main "HOL-Library.Word"
begin

section \<open>A shallow embedding of the sprite batching renderer (src/index.js)\<close>

text \<open>
  The class \<open>Renderer\<close> of \<open>src/index.js\<close> is modelled by a record of its fields and one
  HOL function per method, each taking the renderer and returning the updated one.
  Calls on the WebGL context are appended, in program order, to the field \<open>gl\<close>, so that
  "a draw call was issued" or "a texture was uploaded" are statements about that log.

  Numbers. A JavaScript number is modelled as a \<open>real\<close> (counters that only ever hold
  small non-negative integers as \<open>nat\<close>, the capacity \<open>sbSize\<close>, which is shifted as a
  32-bit integer, as \<open>int\<close>). The rounding of IEEE double arithmetic and the narrowing
  of a value stored into a \<open>Float32Array\<close> are not modelled; every theorem below reads
  "up to that rounding". Division by zero gives a non-finite value in JavaScript and
  \<open>0\<close> in HOL, so statements about quotients assume a non-zero divisor.

  Exceptions. A \<open>RangeError\<close> of a typed array and the \<open>Error\<close> thrown when a shader
  does not compile are values of type \<open>error\<close>; a method that can throw returns
  \<open>error + renderer\<close>. The renderer is not observed after an exception.
\<close>

subsection \<open>Constants (lines 6-28)\<close>

definition VERTEX_SIZE :: nat where "VERTEX_SIZE = 2"
definition COLOR_SIZE :: nat where "COLOR_SIZE = 4"
definition REGION_SIZE :: nat where "REGION_SIZE = 2"
definition TEXTURE_SIZE :: nat where "TEXTURE_SIZE = 1"

definition BYTES_PER_ELEMENT :: nat where "BYTES_PER_ELEMENT = 4"

definition ELEMENT_SIZE :: nat where
  "ELEMENT_SIZE = VERTEX_SIZE + COLOR_SIZE + REGION_SIZE + TEXTURE_SIZE"
definition ELEMENT_OFFSET :: nat where
  "ELEMENT_OFFSET = ELEMENT_SIZE * BYTES_PER_ELEMENT"

definition VERTEX_ELEMENT :: nat where "VERTEX_ELEMENT = 0"
definition COLOR_ELEMENT :: nat where "COLOR_ELEMENT = VERTEX_ELEMENT + VERTEX_SIZE"
definition REGION_ELEMENT :: nat where "REGION_ELEMENT = COLOR_ELEMENT + COLOR_SIZE"
definition TEXTURE_ELEMENT :: nat where "TEXTURE_ELEMENT = REGION_ELEMENT + REGION_SIZE"

definition VERTEX_OFFSET :: nat where "VERTEX_OFFSET = VERTEX_ELEMENT * BYTES_PER_ELEMENT"
definition COLOR_OFFSET :: nat where "COLOR_OFFSET = COLOR_ELEMENT * BYTES_PER_ELEMENT"
definition REGION_OFFSET :: nat where "REGION_OFFSET = REGION_ELEMENT * BYTES_PER_ELEMENT"
definition TEXTURE_OFFSET :: nat where "TEXTURE_OFFSET = TEXTURE_ELEMENT * BYTES_PER_ELEMENT"

definition ELEMENTS_PER_QUAD :: nat where "ELEMENTS_PER_QUAD = 4"
definition INDICES_PER_QUAD :: nat where "INDICES_PER_QUAD = 6"

definition MAX_LENGTH :: nat where "MAX_LENGTH = 16000"

subsection \<open>Data\<close>

type_synonym vec2 = "real \<times> real"

text \<open>The draw colour \<open>this.color\<close>, an array of the four channels red, green, blue, alpha.\<close>

type_synonym rgba = "real \<times> real \<times> real \<times> real"

fun alpha :: "rgba \<Rightarrow> real" where
  "alpha (r, g, b, a) = a"

fun color_array :: "rgba \<Rightarrow> real list" where
  "color_array (r, g, b, a) = [r, g, b, a]"

text \<open>
  An \<open>HTMLImageElement\<close>. The cache of the renderer is a \<open>Map\<close> keyed by the object, so
  an image carries a \<open>handle\<close> that tells two objects with the same dimensions apart.
\<close>

record image =
  handle :: nat
  naturalWidth :: nat
  naturalHeight :: nat

datatype error = RangeError | ShaderError

datatype buffer_target = ARRAY_BUFFER | ELEMENT_ARRAY_BUFFER

datatype attribute = AVertex | AColor | ARegion | ATexture

text \<open>
  Texture objects: the 1x1 red \<open>emptyTexture\<close> of the constructor, and the texture that
  \<open>uploadImage\<close> creates for the unit it allocates.
\<close>

datatype texture = EmptyTexture | UnitTexture nat

datatype tex_param = MIN_FILTER_LINEAR | WRAP_S_CLAMP_TO_EDGE | WRAP_T_CLAMP_TO_EDGE

text \<open>
  The calls on the WebGL context that the methods of \<open>Renderer\<close> make, with the
  arguments that vary. \<open>createBuffer\<close> and \<open>createTexture\<close> only return a fresh object
  and are not logged, and neither are the calls made while the \<open>Shader\<close> is built.
\<close>

datatype gl_call =
    UseProgram
  | BindBuffer buffer_target
  | BufferDataSize buffer_target nat
  | BufferDataIndices buffer_target "16 word list"
  | BufferSubData buffer_target nat "real list"
  | VertexAttribPointer attribute nat nat nat
  | ActiveTexture nat
  | BindTexture texture
  | TexImage2DPixel "nat list"
  | TexImage2D image
  | TexParameteri tex_param
  | Uniform1iv "nat list"
  | Viewport real real real real
  | UniformMatrix3fv "real list"
  | ClearColor real real real real
  | Clear
  | EnableBlend
  | BlendFuncOneOneMinusSrcAlpha
  | PixelStoreiPremultiplyAlpha
  | DrawElements nat

record renderer =
  length' :: nat
  maxTextures :: nat
  precision :: string
  sbSize :: int
  sbOffset :: nat
  stream :: "real list"
  nextUnit :: nat
  cache :: "image \<rightharpoonup> nat"
  color :: rgba
  vectors :: "vec2 list"
  matrix :: "real list"
  uMatrix :: "real list"
  gl :: "gl_call list"

text \<open>What the constructor reads from the canvas and its WebGL context.\<close>

record canvas =
  canvas_width :: real
  canvas_height :: real
  MAX_TEXTURE_IMAGE_UNITS :: nat
  high_float_precision :: nat
  shader_compiles :: bool

subsection \<open>Typed arrays\<close>

text \<open>
  \<open>target.set(source, offset)\<close> of a \<open>Float32Array\<close> throws a \<open>RangeError\<close> when the
  source does not fit; an indexed store \<open>target[i] = v\<close> beyond the end is ignored, which
  is what \<open>xs[i := v]\<close> does.
\<close>

definition typed_set :: "real list \<Rightarrow> real list \<Rightarrow> nat \<Rightarrow> error + real list" where
  "typed_set target source offset =
     (if offset + length source > length target then Inl RangeError
      else Inr (take offset target @ source @ drop (offset + length source) target))"

text \<open>\<open>n << 1\<close>: the operand is taken as a 32-bit integer, shifted, and read back signed.\<close>

definition shl1 :: "int \<Rightarrow> int" where
  "shl1 n = sint (push_bit 1 (word_of_int n :: 32 word))"

subsection \<open>The vertex shader (lines 55-61)\<close>

text \<open>\<open>vColor = vec4(aColor.rgb * aColor.a, aColor.a)\<close>\<close>

fun vertex_shader_vColor :: "rgba \<Rightarrow> rgba" where
  "vertex_shader_vColor (r, g, b, a) = (r * a, g * a, b * a, a)"

subsection \<open>gl-mat3 and gl-vec2\<close>

text \<open>
  Modelled from the spec: the packages \<open>gl-mat3\<close> and \<open>gl-vec2\<close> are imported by
  \<open>index.js\<close> but their source is not part of the repository. Section 4.1 of the spec
  fixes what \<open>drawImage\<close> obtains from them (move the pivot to the origin, rotate
  counter-clockwise, move back); the four operations below are the column-major 3x3
  operations of these packages: \<open>identity\<close>, \<open>translate\<close> and \<open>rotate\<close> multiply the matrix
  from the right, \<open>transformMat3\<close> applies it to the point \<open>(x, y, 1)\<close>.
\<close>

definition mat3_identity :: "real list" where
  "mat3_identity = [1, 0, 0, 0, 1, 0, 0, 0, 1]"

definition mat3_translate :: "real list \<Rightarrow> vec2 \<Rightarrow> real list" where
  "mat3_translate a v =
     (let a00 = a ! 0; a01 = a ! 1; a02 = a ! 2;
          a10 = a ! 3; a11 = a ! 4; a12 = a ! 5;
          a20 = a ! 6; a21 = a ! 7; a22 = a ! 8;
          x = fst v; y = snd v
      in [a00, a01, a02,
          a10, a11, a12,
          x * a00 + y * a10 + a20, x * a01 + y * a11 + a21, x * a02 + y * a12 + a22])"

definition mat3_rotate :: "real list \<Rightarrow> real \<Rightarrow> real list" where
  "mat3_rotate a rad =
     (let a00 = a ! 0; a01 = a ! 1; a02 = a ! 2;
          a10 = a ! 3; a11 = a ! 4; a12 = a ! 5;
          a20 = a ! 6; a21 = a ! 7; a22 = a ! 8;
          s = sin rad; c = cos rad
      in [c * a00 + s * a10, c * a01 + s * a11, c * a02 + s * a12,
          c * a10 - s * a00, c * a11 - s * a01, c * a12 - s * a02,
          a20, a21, a22])"

definition vec2_transformMat3 :: "vec2 \<Rightarrow> real list \<Rightarrow> vec2" where
  "vec2_transformMat3 a m =
     (let x = fst a; y = snd a
      in (m ! 0 * x + m ! 3 * y + m ! 6, m ! 1 * x + m ! 4 * y + m ! 7))"

subsection \<open>Methods of the renderer\<close>

text \<open>\<open>createIB\<close> (lines 468-482); \<open>~~(i / 6)\<close> is the integer quotient, and the
  \<open>Uint16Array\<close> keeps each entry modulo \<open>2 ^ 16\<close>.\<close>

definition indices :: "nat list" where
  "indices = [0, 1, 2, 2, 1, 3]"

definition createIB :: "16 word list" where
  "createIB =
     map (\<lambda>i. word_of_nat (indices ! (i mod INDICES_PER_QUAD)
                 + (i div INDICES_PER_QUAD) * ELEMENTS_PER_QUAD))
       [0 ..< MAX_LENGTH * INDICES_PER_QUAD]"

text \<open>\<open>setClearColor\<close> (lines 272-274) and \<open>clear\<close> (lines 341-343)\<close>

definition setClearColor :: "real \<Rightarrow> real \<Rightarrow> real \<Rightarrow> real \<Rightarrow> renderer \<Rightarrow> renderer" where
  "setClearColor r g b a s = s\<lparr>gl := gl s @ [ClearColor r g b a]\<rparr>"

definition clear :: "renderer \<Rightarrow> renderer" where
  "clear s = s\<lparr>gl := gl s @ [Clear]\<rparr>"

text \<open>\<open>flush\<close> (lines 345-366); \<open>subarray(0, n)\<close> is the prefix of \<open>n\<close> elements.\<close>

definition flush :: "renderer \<Rightarrow> renderer" where
  "flush s =
     (if length' s > 0 then
        let len = length' s * ELEMENT_SIZE * ELEMENTS_PER_QUAD
        in s\<lparr>gl := gl s @ [BufferSubData ARRAY_BUFFER 0 (take len (stream s)),
                            DrawElements (length' s * INDICES_PER_QUAD)],
             sbOffset := 0,
             length' := 0\<rparr>
      else s)"

text \<open>\<open>setProjection\<close> (lines 280-297)\<close>

definition setProjection :: "real \<Rightarrow> real \<Rightarrow> renderer \<Rightarrow> renderer" where
  "setProjection w h s =
     (let s1 = flush s;
          m = [2 / w, 0, 0,
               0, - 2 / h, 0,
               - 1, 1, 1]
      in s1\<lparr>uMatrix := m, gl := gl s1 @ [Viewport 0 0 w h, UniformMatrix3fv m]\<rparr>)"

text \<open>\<open>uploadImage\<close> (lines 299-320): the unit returned, and the renderer afterwards.\<close>

definition uploadImage :: "image \<Rightarrow> renderer \<Rightarrow> nat \<times> renderer" where
  "uploadImage img s =
     (case cache s img of
        Some u \<Rightarrow> (u, s)
      | None \<Rightarrow>
          let unit = nextUnit s
          in (unit,
              s\<lparr>nextUnit := nextUnit s + 1,
                gl := gl s @ [ActiveTexture unit, BindTexture (UnitTexture unit), TexImage2D img,
                              TexParameteri MIN_FILTER_LINEAR,
                              TexParameteri WRAP_S_CLAMP_TO_EDGE,
                              TexParameteri WRAP_T_CLAMP_TO_EDGE],
                cache := (cache s)(img \<mapsto> unit)\<rparr>))"

text \<open>\<open>reset\<close> (lines 322-339)\<close>

definition reset :: "renderer \<Rightarrow> renderer" where
  "reset s =
     s\<lparr>sbOffset := 0,
       length' := 0,
       gl := gl s @ [Uniform1iv [0 ..< maxTextures s]]
               @ concat (map (\<lambda>i. [ActiveTexture i, BindTexture EmptyTexture])
                           [0 ..< maxTextures s])\<rparr>"

text \<open>\<open>resizeSB\<close> (lines 487-492); a \<open>Float32Array\<close> of negative length cannot be created.\<close>

definition resizeSB :: "renderer \<Rightarrow> error + renderer" where
  "resizeSB s =
     (let size = shl1 (sbSize s)
      in if size < 0 then Inl RangeError
         else
           case typed_set (replicate (nat size * ELEMENT_SIZE * ELEMENTS_PER_QUAD) 0) (stream s) 0 of
             Inl e \<Rightarrow> Inl e
           | Inr st \<Rightarrow> Inr (s\<lparr>sbSize := size, stream := st\<rparr>))"

text \<open>
  \<open>drawImage\<close>, lines 399-420: the corners \<open>v0 .. v3\<close>, kept in the scratch vectors
  \<open>this.vectors[0 .. 3]\<close>, and for a non-zero angle the matrix built in \<open>this.matrix\<close> with
  \<open>this.vectors[4]\<close> as the translation. The scratch array has five entries from the
  constructor on and no method changes its length. The result is the four corners as
  they are stored afterwards, and the renderer with its scratch fields updated.
\<close>

definition drawImage_corners ::
  "real \<Rightarrow> real \<Rightarrow> real \<Rightarrow> real \<Rightarrow> real \<Rightarrow> real \<Rightarrow> real \<Rightarrow> renderer
     \<Rightarrow> vec2 \<times> vec2 \<times> vec2 \<times> vec2 \<times> renderer" where
  "drawImage_corners x y width height rotateAngle rotateOriginX rotateOriginY s =
     (let v0 = (x, y);
          v1 = (x + width, y);
          v2 = (x, y + height);
          v3 = (x + width, y + height)
      in if rotateAngle \<noteq> 0 then
           let translate = (x + rotateOriginX, y + rotateOriginY);
               m1 = mat3_translate mat3_identity translate;
               m2 = mat3_rotate m1 rotateAngle;
               translate' = (fst translate * - 1, snd translate * - 1);
               m3 = mat3_translate m2 translate';
               w0 = vec2_transformMat3 v0 m3;
               w1 = vec2_transformMat3 v1 m3;
               w2 = vec2_transformMat3 v2 m3;
               w3 = vec2_transformMat3 v3 m3
           in (w0, w1, w2, w3,
               s\<lparr>vectors := (vectors s)[0 := w0, 1 := w1, 2 := w2, 3 := w3, 4 := translate'],
                 matrix := m3\<rparr>)
         else (v0, v1, v2, v3, s\<lparr>vectors := (vectors s)[0 := v0, 1 := v1, 2 := v2, 3 := v3]\<rparr>))"

text \<open>\<open>drawImage\<close>, lines 394-397 and 433-459: the stores into \<open>this.stream\<close>, in order.\<close>

definition drawImage_write ::
  "real list \<Rightarrow> nat \<Rightarrow> vec2 \<Rightarrow> vec2 \<Rightarrow> vec2 \<Rightarrow> vec2 \<Rightarrow> rgba
     \<Rightarrow> real \<Rightarrow> real \<Rightarrow> real \<Rightarrow> real \<Rightarrow> real \<Rightarrow> error + real list" where
  "drawImage_write target idx0 v0 v1 v2 v3 col r0 r1 r2 r3 unit =
     (let idx1 = idx0 + ELEMENT_SIZE;
          idx2 = idx1 + ELEMENT_SIZE;
          idx3 = idx2 + ELEMENT_SIZE;
          st1 = target[idx0 + VERTEX_ELEMENT + 0 := fst v0,
                       idx0 + VERTEX_ELEMENT + 1 := snd v0,
                       idx1 + VERTEX_ELEMENT + 0 := fst v1,
                       idx1 + VERTEX_ELEMENT + 1 := snd v1,
                       idx2 + VERTEX_ELEMENT + 0 := fst v2,
                       idx2 + VERTEX_ELEMENT + 1 := snd v2,
                       idx3 + VERTEX_ELEMENT + 0 := fst v3,
                       idx3 + VERTEX_ELEMENT + 1 := snd v3]
      in case typed_set st1 (color_array col) (idx0 + COLOR_ELEMENT) of
           Inl e \<Rightarrow> Inl e
         | Inr st2 \<Rightarrow>
       (case typed_set st2 (color_array col) (idx1 + COLOR_ELEMENT) of
           Inl e \<Rightarrow> Inl e
         | Inr st3 \<Rightarrow>
       (case typed_set st3 (color_array col) (idx2 + COLOR_ELEMENT) of
           Inl e \<Rightarrow> Inl e
         | Inr st4 \<Rightarrow>
       (case typed_set st4 (color_array col) (idx3 + COLOR_ELEMENT) of
           Inl e \<Rightarrow> Inl e
         | Inr st5 \<Rightarrow>
             Inr (st5[idx0 + REGION_ELEMENT + 0 := r0,
                      idx0 + REGION_ELEMENT + 1 := r1,
                      idx1 + REGION_ELEMENT + 0 := r2,
                      idx1 + REGION_ELEMENT + 1 := r1,
                      idx2 + REGION_ELEMENT + 0 := r0,
                      idx2 + REGION_ELEMENT + 1 := r3,
                      idx3 + REGION_ELEMENT + 0 := r2,
                      idx3 + REGION_ELEMENT + 1 := r3,
                      idx0 + TEXTURE_ELEMENT := unit,
                      idx1 + TEXTURE_ELEMENT := unit,
                      idx2 + TEXTURE_ELEMENT := unit,
                      idx3 + TEXTURE_ELEMENT := unit])))))"

text \<open>\<open>drawImage\<close> (lines 382-463). The three optional parameters are passed explicitly;
  the defaults of the source are \<open>0\<close>.\<close>

definition drawImage ::
  "image \<Rightarrow> real \<Rightarrow> real \<Rightarrow> real \<Rightarrow> real \<Rightarrow> real \<Rightarrow> real \<Rightarrow> real \<Rightarrow> real
     \<Rightarrow> real \<Rightarrow> real \<Rightarrow> real \<Rightarrow> renderer \<Rightarrow> error + renderer" where
  "drawImage img x y width height regionX regionY regionWidth regionHeight
       rotateAngle rotateOriginX rotateOriginY s =
     (if alpha (color s) < 1 / 256 then Inr s
      else
        let s1 = (if length' s \<ge> MAX_LENGTH then flush s else s)
        in case (if int (length' s1) \<ge> sbSize s1 then resizeSB s1 else Inr s1) of
             Inl e \<Rightarrow> Inl e
           | Inr s2 \<Rightarrow>
               let idx0 = sbOffset s2;
                   (v0, v1, v2, v3, s3) =
                      drawImage_corners x y width height rotateAngle rotateOriginX rotateOriginY s2;
                   col = color s3;
                   imageWidth = real (naturalWidth img);
                   imageHeight = real (naturalHeight img);
                   r0 = regionX / imageWidth;
                   r1 = regionY / imageHeight;
                   r2 = (regionX + regionWidth) / imageWidth;
                   r3 = (regionY + regionHeight) / imageHeight;
                   (unit, s4) = uploadImage img s3
               in case drawImage_write (stream s4) idx0 v0 v1 v2 v3 col r0 r1 r2 r3 (real unit) of
                    Inl e \<Rightarrow> Inl e
                  | Inr st \<Rightarrow>
                      Inr (s4\<lparr>stream := st,
                              sbOffset := sbOffset s4 + ELEMENT_SIZE * ELEMENTS_PER_QUAD,
                              length' := length' s4 + 1\<rparr>))"

text \<open>
  The constructor (lines 165-270). The fields that the source assigns only after its
  calls of \<open>reset\<close> and \<open>setProjection\<close> (which do not read them) are assigned again at
  that place. Creating the \<open>Shader\<close> throws when a shader does not compile or link.
\<close>

definition constructor :: "canvas \<Rightarrow> error + renderer" where
  "constructor cv =
     (if \<not> shader_compiles cv then Inl ShaderError
      else
        let s0 = \<lparr>length' = 0,
                  maxTextures = min 24 (MAX_TEXTURE_IMAGE_UNITS cv),
                  precision = (if high_float_precision cv < 16 then ''mediump'' else ''highp''),
                  sbSize = 256,
                  sbOffset = 0,
                  stream = replicate (256 * ELEMENT_SIZE * ELEMENTS_PER_QUAD) 0,
                  nextUnit = 0,
                  cache = Map.empty,
                  color = (1, 1, 1, 1),
                  vectors = [(0, 0), (0, 0), (0, 0), (0, 0), (0, 0)],
                  matrix = [1, 0, 0, 0, 1, 0, 0, 0, 1],
                  uMatrix = [],
                  gl = [UseProgram,
                        BindBuffer ARRAY_BUFFER,
                        BufferDataSize ARRAY_BUFFER (MAX_LENGTH * ELEMENT_OFFSET * ELEMENTS_PER_QUAD),
                        BindBuffer ELEMENT_ARRAY_BUFFER,
                        BufferDataIndices ELEMENT_ARRAY_BUFFER createIB,
                        VertexAttribPointer AVertex VERTEX_SIZE ELEMENT_OFFSET VERTEX_OFFSET,
                        VertexAttribPointer AColor COLOR_SIZE ELEMENT_OFFSET COLOR_OFFSET,
                        VertexAttribPointer ARegion REGION_SIZE ELEMENT_OFFSET REGION_OFFSET,
                        VertexAttribPointer ATexture TEXTURE_SIZE ELEMENT_OFFSET TEXTURE_OFFSET,
                        BindTexture EmptyTexture,
                        TexImage2DPixel [255, 0, 0, 255]]\<rparr>;
            s1 = reset s0;
            s2 = setProjection (canvas_width cv) (canvas_height cv) s1;
            s3 = s2\<lparr>nextUnit := 0,
                    cache := Map.empty,
                    color := (1, 1, 1, 1),
                    vectors := [(0, 0), (0, 0), (0, 0), (0, 0), (0, 0)],
                    matrix := [1, 0, 0, 0, 1, 0, 0, 0, 1]\<rparr>;
            s4 = setClearColor 0 0 0 1 s3
        in Inr (s4\<lparr>gl := gl s4 @ [EnableBlend, BlendFuncOneOneMinusSrcAlpha,
                                   PixelStoreiPremultiplyAlpha]\<rparr>))"

subsection \<open>The renderer as a state machine\<close>

text \<open>
  What an application does with a renderer: it calls the public methods, and it assigns
  the draw colour \<open>color\<close>, for which the class has no setter. \<open>createIB\<close> and
  \<open>resizeSB\<close> are marked private in the source and are not called from outside.
\<close>

datatype op =
    DrawImage image real real real real real real real real real real real
  | Flush
  | Reset
  | ClearCanvas
  | SetProjection real real
  | SetClearColor real real real real
  | UploadImage image
  | AssignColor rgba

fun step :: "op \<Rightarrow> renderer \<Rightarrow> error + renderer" where
  "step (DrawImage img x y w h rx ry rw rh ang ox oy) s = drawImage img x y w h rx ry rw rh ang ox oy s"
| "step Flush s = Inr (flush s)"
| "step Reset s = Inr (reset s)"
| "step ClearCanvas s = Inr (clear s)"
| "step (SetProjection w h) s = Inr (setProjection w h s)"
| "step (SetClearColor r g b a) s = Inr (setClearColor r g b a s)"
| "step (UploadImage img) s = Inr (snd (uploadImage img s))"
| "step (AssignColor c) s = Inr (s\<lparr>color := c\<rparr>)"

inductive reachable :: "renderer \<Rightarrow> bool" where
  reachable_init: "constructor cv = Inr s \<Longrightarrow> reachable s"
| reachable_step: "reachable s \<Longrightarrow> step c s = Inr s' \<Longrightarrow> reachable s'"

text \<open>A run of calls stops at the first exception.\<close>

fun run :: "op list \<Rightarrow> renderer \<Rightarrow> error + renderer" where
  "run [] s = Inr s"
| "run (c # cs) s = (case step c s of Inl e \<Rightarrow> Inl e | Inr s' \<Rightarrow> run cs s')"

subsection \<open>The layout of the stream buffer\<close>

text \<open>
  The vertex record of section 3 of the spec: position, colour, texture region and
  texture unit, nine floats; and a quad, four such records with one colour and one unit.
  The stores of \<open>drawImage\<close> are compared with these below.
\<close>

definition vertex_record :: "vec2 \<Rightarrow> rgba \<Rightarrow> vec2 \<Rightarrow> real \<Rightarrow> real list" where
  "vertex_record p col uv unit = [fst p, snd p] @ color_array col @ [fst uv, snd uv] @ [unit]"

definition quad_record ::
  "vec2 \<Rightarrow> vec2 \<Rightarrow> vec2 \<Rightarrow> vec2 \<Rightarrow> rgba \<Rightarrow> real \<Rightarrow> real \<Rightarrow> real \<Rightarrow> real \<Rightarrow> real \<Rightarrow> real list" where
  "quad_record v0 v1 v2 v3 col r0 r1 r2 r3 unit =
     vertex_record v0 col (r0, r1) unit @ vertex_record v1 col (r2, r1) unit
     @ vertex_record v2 col (r0, r3) unit @ vertex_record v3 col (r2, r3) unit"

text \<open>
  How the attribute pointers of the constructor (lines 203-234) read vertex \<open>v\<close> of a
  buffer: each attribute at its element offset within the record of \<open>ELEMENT_SIZE\<close> floats.
\<close>

definition vertex_position :: "real list \<Rightarrow> nat \<Rightarrow> vec2" where
  "vertex_position buf v =
     (buf ! (v * ELEMENT_SIZE + VERTEX_ELEMENT), buf ! (v * ELEMENT_SIZE + VERTEX_ELEMENT + 1))"

definition vertex_color :: "real list \<Rightarrow> nat \<Rightarrow> rgba" where
  "vertex_color buf v =
     (buf ! (v * ELEMENT_SIZE + COLOR_ELEMENT), buf ! (v * ELEMENT_SIZE + COLOR_ELEMENT + 1),
      buf ! (v * ELEMENT_SIZE + COLOR_ELEMENT + 2), buf ! (v * ELEMENT_SIZE + COLOR_ELEMENT + 3))"

definition vertex_region :: "real list \<Rightarrow> nat \<Rightarrow> vec2" where
  "vertex_region buf v =
     (buf ! (v * ELEMENT_SIZE + REGION_ELEMENT), buf ! (v * ELEMENT_SIZE + REGION_ELEMENT + 1))"

definition vertex_texture :: "real list \<Rightarrow> nat \<Rightarrow> real" where
  "vertex_texture buf v = buf ! (v * ELEMENT_SIZE + TEXTURE_ELEMENT)"

subsection \<open>Invariants and notions used in the statements\<close>

text \<open>The write offset is the pending quad count times the size of a quad.\<close>

definition offset_inv :: "renderer \<Rightarrow> bool" where
  "offset_inv s \<longleftrightarrow> sbOffset s = length' s * ELEMENT_SIZE * ELEMENTS_PER_QUAD"

text \<open>
  The bookkeeping of the stream buffer: offset and count agree, the count is within the
  cap and within the capacity, the capacity is a power of two between the initial 256
  and 16384, and the array has room for exactly that many quads.
\<close>

definition buffer_inv :: "renderer \<Rightarrow> bool" where
  "buffer_inv s \<longleftrightarrow>
     offset_inv s \<and> length' s \<le> MAX_LENGTH \<and> int (length' s) \<le> sbSize s
     \<and> (\<exists>k. 8 \<le> k \<and> k \<le> 14 \<and> sbSize s = 2 ^ k)
     \<and> length (stream s) = nat (sbSize s) * ELEMENT_SIZE * ELEMENTS_PER_QUAD"

text \<open>The quad slot that the next \<open>drawImage\<close> fills: slot 0 after the flush at the cap.\<close>

definition pending_slot :: "renderer \<Rightarrow> nat" where
  "pending_slot s = (if MAX_LENGTH \<le> length' s then 0 else length' s)"

text \<open>The corners that \<open>drawImage\<close> computes (they do not depend on the renderer).\<close>

definition corners :: "real \<Rightarrow> real \<Rightarrow> real \<Rightarrow> real \<Rightarrow> real \<Rightarrow> real \<Rightarrow> real \<Rightarrow> renderer \<Rightarrow> vec2 list" where
  "corners x y w h ang ox oy s =
     (case drawImage_corners x y w h ang ox oy s of (v0, v1, v2, v3, _) \<Rightarrow> [v0, v1, v2, v3])"

text \<open>
  The quad that a call of \<open>drawImage\<close> is to store: its corners, the draw colour, the
  region divided by the dimensions of the image, and the unit that \<open>uploadImage\<close> returns.
\<close>

definition written_quad ::
  "image \<Rightarrow> real \<Rightarrow> real \<Rightarrow> real \<Rightarrow> real \<Rightarrow> real \<Rightarrow> real \<Rightarrow> real \<Rightarrow> real
     \<Rightarrow> real \<Rightarrow> real \<Rightarrow> real \<Rightarrow> renderer \<Rightarrow> real list" where
  "written_quad img x y w h rx ry rw rh ang ox oy s =
     (case drawImage_corners x y w h ang ox oy s of
        (v0, v1, v2, v3, _) \<Rightarrow>
          quad_record v0 v1 v2 v3 (color s)
            (rx / real (naturalWidth img)) (ry / real (naturalHeight img))
            ((rx + rw) / real (naturalWidth img)) ((ry + rh) / real (naturalHeight img))
            (real (fst (uploadImage img s))))"

text \<open>Classes of WebGL calls: draw calls, uploads of an image into a texture, and
  writes to the buffer bound as the element array (the index table).\<close>

fun is_draw :: "gl_call \<Rightarrow> bool" where
  "is_draw (DrawElements n) = True"
| "is_draw _ = False"

fun is_texture_upload :: "gl_call \<Rightarrow> bool" where
  "is_texture_upload (TexImage2D img) = True"
| "is_texture_upload _ = False"

fun writes_index_buffer :: "gl_call \<Rightarrow> bool" where
  "writes_index_buffer (BufferDataSize t n) = (t = ELEMENT_ARRAY_BUFFER)"
| "writes_index_buffer (BufferDataIndices t d) = (t = ELEMENT_ARRAY_BUFFER)"
| "writes_index_buffer (BufferSubData t off d) = (t = ELEMENT_ARRAY_BUFFER)"
| "writes_index_buffer _ = False"

text \<open>The cache is injective and its units are exactly those below \<open>nextUnit\<close>.\<close>

definition cache_inv :: "renderer \<Rightarrow> bool" where
  "cache_inv s \<longleftrightarrow> inj_on (cache s) (dom (cache s)) \<and> ran (cache s) = {..< nextUnit s}"

text \<open>No draw call in the log exceeds the index table, which was uploaded exactly once.\<close>

definition log_inv :: "renderer \<Rightarrow> bool" where
  "log_inv s \<longleftrightarrow>
     (\<forall>n. DrawElements n \<in> set (gl s) \<longrightarrow> n \<le> MAX_LENGTH * INDICES_PER_QUAD)
     \<and> filter writes_index_buffer (gl s) = [BufferDataIndices ELEMENT_ARRAY_BUFFER createIB]"

definition renderer_inv :: "renderer \<Rightarrow> bool" where
  "renderer_inv s \<longleftrightarrow> buffer_inv s \<and> cache_inv s \<and> log_inv s"

text \<open>The four vertices of quad \<open>q\<close> of a buffer.\<close>

definition quad_vertices :: "nat \<Rightarrow> nat list" where
  "quad_vertices q = [ELEMENTS_PER_QUAD * q ..< ELEMENTS_PER_QUAD * q + ELEMENTS_PER_QUAD]"

text \<open>
  Section 4.1 of the spec, in its words: the corners of the axis-aligned rectangle in
  the winding order top-left, top-right, bottom-left, bottom-right; and a point moved
  so that the pivot is the origin, rotated by the standard counter-clockwise rotation
  \<open>(x cos a - y sin a, x sin a + y cos a)\<close>, and moved back.
\<close>

definition rect_corners :: "real \<Rightarrow> real \<Rightarrow> real \<Rightarrow> real \<Rightarrow> vec2 list" where
  "rect_corners x y w h = [(x, y), (x + w, y), (x, y + h), (x + w, y + h)]"

definition rotate_about :: "vec2 \<Rightarrow> real \<Rightarrow> vec2 \<Rightarrow> vec2" where
  "rotate_about pivot ang p =
     (let dx = fst p - fst pivot;
          dy = snd p - snd pivot
      in (fst pivot + (dx * cos ang - dy * sin ang),
          snd pivot + (dx * sin ang + dy * cos ang)))"

text \<open>
  The calls that the batching property of section 8 of the spec is about: \<open>drawImage\<close>
  without rotation, on an image whose dimensions are not zero. For such a call, the
  positions and the texture regions that the spec obtains by direct arithmetic from the
  arguments: \<open>x, x + w, y, y + h\<close>, and the region divided by the image dimensions.
\<close>

fun plain_draw :: "op \<Rightarrow> bool" where
  "plain_draw (DrawImage img x y w h rx ry rw rh ang ox oy) =
     (ang = 0 \<and> 0 < naturalWidth img \<and> 0 < naturalHeight img)"
| "plain_draw _ = False"

fun direct_positions :: "op \<Rightarrow> vec2 list" where
  "direct_positions (DrawImage img x y w h rx ry rw rh ang ox oy) =
     [(x, y), (x + w, y), (x, y + h), (x + w, y + h)]"
| "direct_positions _ = []"

fun direct_regions :: "op \<Rightarrow> vec2 list" where
  "direct_regions (DrawImage img x y w h rx ry rw rh ang ox oy) =
     [(rx / real (naturalWidth img), ry / real (naturalHeight img)),
      ((rx + rw) / real (naturalWidth img), ry / real (naturalHeight img)),
      (rx / real (naturalWidth img), (ry + rh) / real (naturalHeight img)),
      ((rx + rw) / real (naturalWidth img), (ry + rh) / real (naturalHeight img))]"
| "direct_regions _ = []"

text \<open>A call whose write would exceed the capacity: a \<open>drawImage\<close> that writes (the
  colour is visible) while the slot it is to fill lies at or beyond the capacity.\<close>

fun exceeds_capacity :: "op \<Rightarrow> renderer \<Rightarrow> bool" where
  "exceeds_capacity (DrawImage img x y w h rx ry rw rh ang ox oy) s =
     (\<not> alpha (color s) < 1 / 256 \<and> sbSize s \<le> int (pending_slot s))"
| "exceeds_capacity _ s = False"

subsection \<open>Example inputs\<close>

text \<open>The 400x300 canvas of the demo, a renderer constructed on it, and a 100x100 image.\<close>

definition example_canvas :: canvas where
  "example_canvas =
     \<lparr>canvas_width = 400, canvas_height = 300, MAX_TEXTURE_IMAGE_UNITS = 16,
      high_float_precision = 23, shader_compiles = True\<rparr>"

definition example_renderer :: renderer where
  "example_renderer = projr (constructor example_canvas)"

definition example_image :: image where
  "example_image = \<lparr>handle = 0, naturalWidth = 100, naturalHeight = 100\<rparr>"

definition example_half_red :: renderer where
  "example_half_red = example_renderer\<lparr>color := (1, 0, 0, 1 / 2)\<rparr>"

text \<open>A context with a single texture unit, a second image, a renderer that has
  uploaded the first image, and one with one pending quad.\<close>

definition example_narrow_canvas :: canvas where
  "example_narrow_canvas = example_canvas\<lparr>MAX_TEXTURE_IMAGE_UNITS := 1\<rparr>"

definition example_other_image :: image where
  "example_other_image = \<lparr>handle = 1, naturalWidth = 50, naturalHeight = 50\<rparr>"

definition example_loaded :: renderer where
  "example_loaded = snd (uploadImage example_image (projr (constructor example_narrow_canvas)))"

definition example_pending :: renderer where
  "example_pending = projr (drawImage example_image 0 0 10 10 0 0 100 100 0 0 0 example_renderer)"

text \<open>A draw of the region \<open>(25, 25, 50, 50)\<close> of the 100x100 image, and the renderer
  after \<open>n\<close> such draws.\<close>

definition example_region_draw :: op where
  "example_region_draw = DrawImage example_image 10 20 50 50 25 25 50 50 0 0 0"

definition example_batch :: "nat \<Rightarrow> renderer" where
  "example_batch n = projr (run (replicate n example_region_draw) example_renderer)"

section \<open>Properties\<close>

lemmas layout_defs =
  VERTEX_SIZE_def COLOR_SIZE_def REGION_SIZE_def TEXTURE_SIZE_def BYTES_PER_ELEMENT_def
  ELEMENT_SIZE_def ELEMENT_OFFSET_def VERTEX_ELEMENT_def COLOR_ELEMENT_def
  REGION_ELEMENT_def TEXTURE_ELEMENT_def VERTEX_OFFSET_def COLOR_OFFSET_def
  REGION_OFFSET_def TEXTURE_OFFSET_def ELEMENTS_PER_QUAD_def INDICES_PER_QUAD_def


lemma quad_size: "ELEMENT_SIZE * ELEMENTS_PER_QUAD = 36"
  by (simp add: layout_defs)

subsection \<open>Typed arrays and the stores of one quad\<close>

lemma shl1_double: "0 \<le> n \<Longrightarrow> n < 2 ^ 30 \<Longrightarrow> shl1 n = 2 * n"
proof -
  assume a: "0 \<le> n" "n < 2 ^ 30"
  have "push_bit 1 (word_of_int n :: 32 word) = word_of_int (2 * n)"
    by (simp add: push_bit_eq_mult)
  moreover have "signed_take_bit 31 (2 * n) = 2 * n"
    using a by (intro signed_take_bit_int_eq_self) auto
  ultimately show ?thesis
    unfolding shl1_def by (simp only: sint_sbintrunc') simp
qed

lemma list_update_Cons_numeral:
  "(x # xs)[numeral k := y] = x # xs[pred_numeral k := y]"
  by (simp add: numeral_eq_Suc)

lemma list_update_append_offset:
  "length A \<le> n \<Longrightarrow> (A @ ys)[n := v] = A @ ys[n - length A := v]"
  by (simp add: list_update_append)

lemma typed_set_append_offset:
  "length A \<le> n \<Longrightarrow> n - length A + length src \<le> length ys \<Longrightarrow>
   typed_set (A @ ys) src n
     = Inr (A @ take (n - length A) ys @ src @ drop (n - length A + length src) ys)"
  by (simp add: typed_set_def)

lemma drawImage_write_shape:
  "drawImage_write (A @ [b0, b1, b2, b3, b4, b5, b6, b7, b8, b9, b10, b11, b12, b13, b14, b15, b16, b17, b18, b19, b20, b21, b22, b23, b24, b25, b26, b27, b28, b29, b30, b31, b32, b33, b34, b35] @ C) (length A)
       v0 v1 v2 v3 col r0 r1 r2 r3 unit =
     Inr (A @ quad_record v0 v1 v2 v3 col r0 r1 r2 r3 unit @ C)"
proof -
  obtain r g b a where col: "col = (r, g, b, a)" by (cases col) auto
  show ?thesis
    unfolding drawImage_write_def col layout_defs Let_def color_array.simps
      quad_record_def vertex_record_def
    by (simp add: list_update_append_offset list_update_Cons_numeral typed_set_append_offset)
qed

lemma drawImage_write_fits:
  assumes fit: "idx0 + 36 \<le> length target"
  shows "drawImage_write target idx0 v0 v1 v2 v3 col r0 r1 r2 r3 unit =
           Inr (take idx0 target @ quad_record v0 v1 v2 v3 col r0 r1 r2 r3 unit
                  @ drop (idx0 + 36) target)"
proof -
  define A where "A = take idx0 target"
  define B where "B = take 36 (drop idx0 target)"
  define C where "C = drop (idx0 + 36) target"
  have lenA: "length A = idx0" and lenB: "length B = 36"
    using fit by (simp_all add: A_def B_def)
  have target: "A @ B @ C = target"
    unfolding A_def B_def C_def
    by (metis add.commute append_take_drop_id drop_drop)
  have B: "[B ! 0, B ! 1, B ! 2, B ! 3, B ! 4, B ! 5, B ! 6, B ! 7, B ! 8, B ! 9, B ! 10, B ! 11, B ! 12, B ! 13, B ! 14, B ! 15, B ! 16, B ! 17, B ! 18, B ! 19, B ! 20, B ! 21, B ! 22, B ! 23, B ! 24, B ! 25, B ! 26, B ! 27, B ! 28, B ! 29, B ! 30, B ! 31, B ! 32, B ! 33, B ! 34, B ! 35] = B"
  proof -
    have u: "[0 ..< 36 :: nat] = [0, 1, 2, 3, 4, 5, 6, 7, 8, 9, 10, 11, 12, 13, 14, 15, 16, 17, 18, 19, 20, 21, 22, 23, 24, 25, 26, 27, 28, 29, 30, 31, 32, 33, 34, 35]"
      by code_simp
    show ?thesis using map_nth [of B] unfolding lenB u by simp
  qed
  have "drawImage_write (A @ [B ! 0, B ! 1, B ! 2, B ! 3, B ! 4, B ! 5, B ! 6, B ! 7, B ! 8, B ! 9, B ! 10, B ! 11, B ! 12, B ! 13, B ! 14, B ! 15, B ! 16, B ! 17, B ! 18, B ! 19, B ! 20, B ! 21, B ! 22, B ! 23, B ! 24, B ! 25, B ! 26, B ! 27, B ! 28, B ! 29, B ! 30, B ! 31, B ! 32, B ! 33, B ! 34, B ! 35] @ C) (length A) v0 v1 v2 v3 col r0 r1 r2 r3 unit =
          Inr (A @ quad_record v0 v1 v2 v3 col r0 r1 r2 r3 unit @ C)"
    by (rule drawImage_write_shape)
  then show ?thesis
    unfolding B target lenA by (simp only: A_def C_def)
qed

subsection \<open>The effect of a visible draw\<close>

lemma flush_fields [simp]:
  "length' (flush s) = 0"
  "sbOffset (flush s) = (if length' s > 0 then 0 else sbOffset s)"
  "sbSize (flush s) = sbSize s"
  "stream (flush s) = stream s"
  "color (flush s) = color s"
  "cache (flush s) = cache s"
  "nextUnit (flush s) = nextUnit s"
  "maxTextures (flush s) = maxTextures s"
  "precision (flush s) = precision s"
  "vectors (flush s) = vectors s"
  "matrix (flush s) = matrix s"
  "uMatrix (flush s) = uMatrix s"
  by (simp_all add: flush_def Let_def)

lemma uploadImage_fields [simp]:
  "length' (snd (uploadImage img s)) = length' s"
  "sbOffset (snd (uploadImage img s)) = sbOffset s"
  "sbSize (snd (uploadImage img s)) = sbSize s"
  "stream (snd (uploadImage img s)) = stream s"
  "color (snd (uploadImage img s)) = color s"
  "maxTextures (snd (uploadImage img s)) = maxTextures s"
  "precision (snd (uploadImage img s)) = precision s"
  "vectors (snd (uploadImage img s)) = vectors s"
  "matrix (snd (uploadImage img s)) = matrix s"
  "uMatrix (snd (uploadImage img s)) = uMatrix s"
  by (simp_all add: uploadImage_def Let_def split: option.splits)

lemma drawImage_corners_fields [simp]:
  "length' (snd (snd (snd (snd (drawImage_corners x y w h ang ox oy s))))) = length' s"
  "sbOffset (snd (snd (snd (snd (drawImage_corners x y w h ang ox oy s))))) = sbOffset s"
  "sbSize (snd (snd (snd (snd (drawImage_corners x y w h ang ox oy s))))) = sbSize s"
  "stream (snd (snd (snd (snd (drawImage_corners x y w h ang ox oy s))))) = stream s"
  "color (snd (snd (snd (snd (drawImage_corners x y w h ang ox oy s))))) = color s"
  "maxTextures (snd (snd (snd (snd (drawImage_corners x y w h ang ox oy s))))) = maxTextures s"
  "precision (snd (snd (snd (snd (drawImage_corners x y w h ang ox oy s))))) = precision s"
  "cache (snd (snd (snd (snd (drawImage_corners x y w h ang ox oy s))))) = cache s"
  "nextUnit (snd (snd (snd (snd (drawImage_corners x y w h ang ox oy s))))) = nextUnit s"
  "uMatrix (snd (snd (snd (snd (drawImage_corners x y w h ang ox oy s))))) = uMatrix s"
  "gl (snd (snd (snd (snd (drawImage_corners x y w h ang ox oy s))))) = gl s"
  by (simp_all add: drawImage_corners_def Let_def)

lemma uploadImage_cong:
  "cache s' = cache s \<Longrightarrow> nextUnit s' = nextUnit s \<Longrightarrow>
   fst (uploadImage img s') = fst (uploadImage img s)
   \<and> cache (snd (uploadImage img s')) = cache (snd (uploadImage img s))
   \<and> nextUnit (snd (uploadImage img s')) = nextUnit (snd (uploadImage img s))"
  by (simp add: uploadImage_def Let_def split: option.splits)

lemma uploadImage_cong_gl:
  "cache s' = cache s \<Longrightarrow> nextUnit s' = nextUnit s \<Longrightarrow> gl s' = gl s \<Longrightarrow>
   gl (snd (uploadImage img s')) = gl (snd (uploadImage img s))"
  by (simp add: uploadImage_def Let_def split: option.splits)

lemma corners_independent:
  "corners x y w h ang ox oy s' = corners x y w h ang ox oy s"
  by (simp add: corners_def drawImage_corners_def Let_def)

lemma resizeSB_grows:
  assumes "0 \<le> sbSize s" "sbSize s < 2 ^ 30"
    and "length (stream s) = nat (sbSize s) * ELEMENT_SIZE * ELEMENTS_PER_QUAD"
  shows "resizeSB s =
           Inr (s\<lparr>sbSize := 2 * sbSize s,
                  stream := stream s @ replicate (length (stream s)) 0\<rparr>)"
proof -
  have "nat (2 * sbSize s) * ELEMENT_SIZE * ELEMENTS_PER_QUAD = length (stream s) + length (stream s)"
    using assms by (simp add: nat_mult_distrib)
  then show ?thesis
    using assms
    by (simp add: resizeSB_def shl1_double typed_set_def Let_def replicate_add [symmetric]
        del: replicate_add)
qed


lemma pow2_bounds:
  fixes k :: nat
  assumes "8 \<le> k" "k \<le> 14"
  shows "(256::int) \<le> 2 ^ k" "(2::int) ^ k \<le> 16384"
proof -
  have "(2::int) ^ 8 \<le> 2 ^ k" using assms(1) by (intro power_increasing) auto
  then show "(256::int) \<le> 2 ^ k" by simp
  have "(2::int) ^ k \<le> 2 ^ 14" using assms(2) by (intro power_increasing) auto
  then show "(2::int) ^ k \<le> 16384" by simp
qed

lemma drawImage_visible:
  assumes inv: "buffer_inv s" and vis: "\<not> alpha (color s) < 1 / 256"
  shows "\<exists>s'. drawImage img x y w h rx ry rw rh ang ox oy s = Inr s'
     \<and> length' s' = Suc (pending_slot s)
     \<and> sbSize s' = (if sbSize s \<le> int (pending_slot s) then 2 * sbSize s else sbSize s)
     \<and> take (36 * pending_slot s) (stream s') = take (36 * pending_slot s) (stream s)
     \<and> take 36 (drop (36 * pending_slot s) (stream s')) = written_quad img x y w h rx ry rw rh ang ox oy s
     \<and> color s' = color s \<and> maxTextures s' = maxTextures s
     \<and> cache s' = cache (snd (uploadImage img s))
     \<and> nextUnit s' = nextUnit (snd (uploadImage img s))
     \<and> gl s' = gl (snd (uploadImage img (if MAX_LENGTH \<le> length' s then flush s else s)))
     \<and> buffer_inv s'"
proof -
  define s1 where "s1 = (if MAX_LENGTH \<le> length' s then flush s else s)"
  define q where "q = pending_slot s"
  from inv obtain k where k: "8 \<le> k" "k \<le> 14" "sbSize s = 2 ^ k"
    and off: "sbOffset s = length' s * 36" and len: "length' s \<le> MAX_LENGTH"
    and cap: "int (length' s) \<le> sbSize s"
    and st: "length (stream s) = nat (sbSize s) * 36"
    by (auto simp: buffer_inv_def offset_inv_def layout_defs)
  have sz: "256 \<le> sbSize s" "sbSize s \<le> 16384"
    using pow2_bounds [OF k(1,2)] k(3) by simp_all
  have s1: "length' s1 = q" "sbOffset s1 = q * 36" "sbSize s1 = sbSize s" "stream s1 = stream s"
    "color s1 = color s" "cache s1 = cache s" "nextUnit s1 = nextUnit s"
    "maxTextures s1 = maxTextures s"
    using off len by (auto simp: s1_def q_def pending_slot_def MAX_LENGTH_def)
  have q: "q < MAX_LENGTH" "int q \<le> sbSize s"
    using len cap sz by (auto simp: q_def pending_slot_def MAX_LENGTH_def)
  define s2 where "s2 = (if sbSize s \<le> int q
       then s1\<lparr>sbSize := 2 * sbSize s, stream := stream s @ replicate (length (stream s)) 0\<rparr>
       else s1)"
  have r: "(if int (length' s1) \<ge> sbSize s1 then resizeSB s1 else Inr s1) = Inr s2"
    using resizeSB_grows [of s1] sz st by (simp add: s1 s2_def layout_defs)
  have k2: "sbSize s \<le> int q \<Longrightarrow> k \<le> 13"
  proof (rule ccontr)
    assume a: "sbSize s \<le> int q" "\<not> k \<le> 13"
    then have "k = 14" using k by simp
    then have "sbSize s = 16384" using k by simp
    then show False using a q by (simp add: MAX_LENGTH_def)
  qed
  have s2: "length' s2 = q" "sbOffset s2 = q * 36" "color s2 = color s" "cache s2 = cache s"
    "nextUnit s2 = nextUnit s" "maxTextures s2 = maxTextures s" "gl s2 = gl s1"
    "sbSize s2 = (if sbSize s \<le> int q then 2 * sbSize s else sbSize s)"
    "take (length (stream s)) (stream s2) = stream s"
    "length (stream s2) = nat (sbSize s2) * 36"
    using st by (auto simp: s2_def s1 nat_mult_distrib)
  have fit: "q * 36 + 36 \<le> length (stream s2)"
  proof -
    have "int q < sbSize s2" using q sz by (auto simp: s2)
    then have "Suc q \<le> nat (sbSize s2)" by linarith
    then have "Suc q * 36 \<le> nat (sbSize s2) * 36" by (rule mult_le_mono1)
    then show ?thesis by (simp add: s2)
  qed
  have pre: "take (36 * q) (stream s2) = take (36 * q) (stream s)"
  proof -
    have "36 * q \<le> length (stream s)" using q sz st by (simp add: nat_le_iff)
    then have "take (36 * q) (take (length (stream s)) (stream s2)) = take (36 * q) (stream s2)"
      by (simp add: min_def)
    then show ?thesis by (simp add: s2)
  qed
  let ?s3 = "snd (snd (snd (snd (drawImage_corners x y w h ang ox oy s2))))"
  let ?s4 = "snd (uploadImage img ?s3)"
  let ?wq = "written_quad img x y w h rx ry rw rh ang ox oy s"
  let ?st = "take (q * 36) (stream s2) @ ?wq @ drop (q * 36 + 36) (stream s2)"
  let ?s' = "?s4\<lparr>stream := ?st, sbOffset := q * 36 + 36, length' := q + 1\<rparr>"
  have up: "fst (uploadImage img ?s3) = fst (uploadImage img s)"
    "cache ?s4 = cache (snd (uploadImage img s))"
    "nextUnit ?s4 = nextUnit (snd (uploadImage img s))"
    "gl ?s4 = gl (snd (uploadImage img s1))"
    using uploadImage_cong [of ?s3 s img] uploadImage_cong_gl [of ?s3 s1 img]
    by (simp_all add: s2 s1)
  have wq: "?wq = (case drawImage_corners x y w h ang ox oy s2 of
        (v0, v1, v2, v3, _) \<Rightarrow>
          quad_record v0 v1 v2 v3 (color s)
            (rx / real (naturalWidth img)) (ry / real (naturalHeight img))
            ((rx + rw) / real (naturalWidth img)) ((ry + rh) / real (naturalHeight img))
            (real (fst (uploadImage img s))))"
    by (simp add: written_quad_def drawImage_corners_def Let_def)
  have d: "drawImage img x y w h rx ry rw rh ang ox oy s = Inr ?s'"
    unfolding drawImage_def
    using vis r fit
    by (simp add: s1_def [symmetric] Let_def case_prod_beta drawImage_write_fits s2 up wq
        layout_defs)
  have inv': "buffer_inv ?s'"
  proof -
    have "\<exists>k'. 8 \<le> k' \<and> k' \<le> 14 \<and> sbSize s2 = 2 ^ k'"
    proof (cases "sbSize s \<le> int q")
      case True
      with k2 k have "8 \<le> Suc k \<and> Suc k \<le> 14 \<and> sbSize s2 = 2 ^ Suc k" by (simp add: s2)
      then show ?thesis by blast
    next
      case False
      with k show ?thesis by (auto simp: s2)
    qed
    moreover have "int (q + 1) \<le> sbSize s2" using q sz by (auto simp: s2)
    moreover have "length ?st = length (stream s2)"
      using fit by (simp add: written_quad_def quad_record_def vertex_record_def case_prod_beta
          split: prod.splits) (cases "color s"; simp)
    ultimately show ?thesis
      using q by (simp add: buffer_inv_def offset_inv_def s2 layout_defs)
  qed
  have lenA: "length (take (q * 36) (stream s2)) = 36 * q"
    using fit by simp
  have lenwq: "length ?wq = 36"
    by (simp add: written_quad_def quad_record_def vertex_record_def case_prod_beta)
      (cases "color s"; simp)
  have "take (36 * q) (stream ?s') = take (36 * q) (stream s)"
    using lenA pre by (simp add: mult.commute del: length_take)
  moreover have "take 36 (drop (36 * q) (stream ?s')) = ?wq"
    using lenA lenwq by (simp del: length_take)
  ultimately show ?thesis
    using d inv' by (simp add: q_def [symmetric] s1_def [symmetric] s2 up)
qed

subsection \<open>Invariants of the reachable states\<close>

lemma uploadImage_hit: "cache s img = Some u \<Longrightarrow> uploadImage img s = (u, s)"
  by (simp add: uploadImage_def)

lemma uploadImage_miss:
  "cache s img = None \<Longrightarrow>
   uploadImage img s =
     (nextUnit s,
      s\<lparr>nextUnit := nextUnit s + 1,
        gl := gl s @ [ActiveTexture (nextUnit s), BindTexture (UnitTexture (nextUnit s)),
                      TexImage2D img, TexParameteri MIN_FILTER_LINEAR,
                      TexParameteri WRAP_S_CLAMP_TO_EDGE, TexParameteri WRAP_T_CLAMP_TO_EDGE],
        cache := (cache s)(img \<mapsto> nextUnit s)\<rparr>)"
  by (simp add: uploadImage_def Let_def)

lemma uploadImage_gl:
  "\<exists>cs. gl (snd (uploadImage img s)) = gl s @ cs
     \<and> (\<forall>c \<in> set cs. \<not> is_draw c \<and> \<not> writes_index_buffer c)"
  by (cases "cache s img") (simp_all add: uploadImage_hit uploadImage_miss)

lemma uploadImage_cache_inv:
  assumes "cache_inv s"
  shows "cache_inv (snd (uploadImage img s))"
proof (cases "cache s img")
  case (Some u)
  with assms show ?thesis by (simp add: uploadImage_hit)
next
  case None
  from assms have inj: "inj_on (cache s) (dom (cache s))" and ran: "ran (cache s) = {..< nextUnit s}"
    by (simp_all add: cache_inv_def)
  let ?c = "(cache s)(img \<mapsto> nextUnit s)"
  have "ran ?c = insert (nextUnit s) (ran (cache s))"
    using None by simp
  then have r: "ran ?c = {..< Suc (nextUnit s)}"
    using ran by (auto simp: lessThan_Suc)
  have "inj_on ?c (dom ?c)"
  proof (rule inj_onI)
    fix a b assume a: "a \<in> dom ?c" "b \<in> dom ?c" "?c a = ?c b"
    have fresh: "\<And>z. z \<in> dom (cache s) \<Longrightarrow> cache s z \<noteq> Some (nextUnit s)"
    proof
      fix z assume "z \<in> dom (cache s)" "cache s z = Some (nextUnit s)"
      then have "nextUnit s \<in> ran (cache s)" by (auto simp: ran_def)
      then show False using ran by simp
    qed
    show "a = b"
    proof (cases "a = img"; cases "b = img")
      assume "a \<noteq> img" "b \<noteq> img"
      then show ?thesis using a inj by (auto dest: inj_onD)
    qed (use a fresh in \<open>auto split: if_splits\<close>)
  qed
  with r None show ?thesis by (simp add: cache_inv_def uploadImage_miss)
qed

lemma flush_gl:
  "gl (flush s) = gl s @ (if length' s > 0
      then [BufferSubData ARRAY_BUFFER 0 (take (36 * length' s) (stream s)),
            DrawElements (length' s * INDICES_PER_QUAD)] else [])"
  by (simp add: flush_def Let_def layout_defs)

lemma flush_inv:
  assumes "renderer_inv s"
  shows "renderer_inv (flush s)"
proof -
  from assms have "length' s \<le> MAX_LENGTH" by (simp add: renderer_inv_def buffer_inv_def)
  then have "length' s * INDICES_PER_QUAD \<le> MAX_LENGTH * INDICES_PER_QUAD" by simp
  then show ?thesis
    using assms
    by (auto simp: renderer_inv_def buffer_inv_def offset_inv_def cache_inv_def log_inv_def
        flush_gl)
qed

lemma drawImage_inv:
  assumes inv: "renderer_inv s" and d: "drawImage img x y w h rx ry rw rh ang ox oy s = Inr s'"
  shows "renderer_inv s'"
proof (cases "alpha (color s) < 1 / 256")
  case True
  with d inv show ?thesis by (simp add: drawImage_def)
next
  case False
  define s1 where "s1 = (if MAX_LENGTH \<le> length' s then flush s else s)"
  from inv have b: "buffer_inv s" by (simp add: renderer_inv_def)
  from drawImage_visible [OF b False, of img x y w h rx ry rw rh ang ox oy] d
  have s': "buffer_inv s'" "cache s' = cache (snd (uploadImage img s))"
    "nextUnit s' = nextUnit (snd (uploadImage img s))"
    "gl s' = gl (snd (uploadImage img s1))"
    by (auto simp: s1_def)
  have "renderer_inv s1" using inv flush_inv by (simp add: s1_def)
  then have l1: "log_inv s1" by (simp add: renderer_inv_def)
  obtain cs where cs: "gl s' = gl s1 @ cs" "\<forall>c \<in> set cs. \<not> is_draw c \<and> \<not> writes_index_buffer c"
    using uploadImage_gl [of img s1] s'(4) by auto
  have "filter writes_index_buffer cs = []" using cs(2) by (simp add: filter_empty_conv)
  moreover have "\<And>n. DrawElements n \<notin> set cs" using cs(2) by force
  ultimately have "log_inv s'" using l1 by (auto simp: log_inv_def cs(1))
  moreover have "cache_inv s'"
    using uploadImage_cache_inv [of s img] inv s'(2,3) by (simp add: renderer_inv_def cache_inv_def)
  ultimately show ?thesis using s'(1) by (simp add: renderer_inv_def)
qed

lemma constructor_fields:
  assumes "constructor cv = Inr s"
  shows "length' s = 0" "sbOffset s = 0" "sbSize s = 256" "stream s = replicate 9216 0"
    "nextUnit s = 0" "cache s = Map.empty" "color s = (1, 1, 1, 1)"
    "maxTextures s = min 24 (MAX_TEXTURE_IMAGE_UNITS cv)"
    "filter writes_index_buffer (gl s) = [BufferDataIndices ELEMENT_ARRAY_BUFFER createIB]"
    "filter is_draw (gl s) = []"
    "filter is_texture_upload (gl s) = []"
  using assms
  by (auto simp: constructor_def Let_def reset_def setProjection_def setClearColor_def
      flush_def layout_defs filter_concat comp_def split: if_splits)


lemma constructor_inv:
  assumes "constructor cv = Inr s"
  shows "renderer_inv s"
proof -
  have "\<exists>k. 8 \<le> k \<and> k \<le> 14 \<and> (256::int) = 2 ^ k"
    by (rule exI [of _ 8]) simp
  moreover have "\<And>n. DrawElements n \<notin> set (gl s)"
  proof
    fix n assume "DrawElements n \<in> set (gl s)"
    then have "DrawElements n \<in> set (filter is_draw (gl s))" by simp
    then show False by (simp add: constructor_fields [OF assms])
  qed
  ultimately show ?thesis
    by (simp add: renderer_inv_def buffer_inv_def offset_inv_def cache_inv_def log_inv_def
        constructor_fields [OF assms] layout_defs MAX_LENGTH_def)
qed

lemma reset_inv:
  assumes "renderer_inv s"
  shows "renderer_inv (reset s)"
proof -
  have "filter writes_index_buffer
          (concat (map (\<lambda>i. [ActiveTexture i, BindTexture EmptyTexture]) [0 ..< maxTextures s])) = []"
    by (simp add: filter_concat comp_def)
  moreover have "\<And>n. DrawElements n \<notin>
      set (concat (map (\<lambda>i. [ActiveTexture i, BindTexture EmptyTexture]) [0 ..< maxTextures s]))"
    by auto
  ultimately show ?thesis
    using assms
    by (auto simp: renderer_inv_def buffer_inv_def offset_inv_def cache_inv_def log_inv_def
        reset_def)
qed

lemma setProjection_inv:
  assumes "renderer_inv s"
  shows "renderer_inv (setProjection w h s)"
  using flush_inv [OF assms]
  by (auto simp: renderer_inv_def buffer_inv_def offset_inv_def cache_inv_def log_inv_def
      setProjection_def Let_def)

lemma step_inv:
  assumes "renderer_inv s" and "step c s = Inr s'"
  shows "renderer_inv s'"
proof (cases c)
  case (DrawImage img x y w h rx ry rw rh ang ox oy)
  with assms show ?thesis by (auto intro: drawImage_inv)
next
  case Flush
  with assms show ?thesis by (auto intro: flush_inv)
next
  case Reset
  with assms show ?thesis by (auto intro: reset_inv)
next
  case ClearCanvas
  with assms show ?thesis
    by (auto simp: renderer_inv_def buffer_inv_def offset_inv_def cache_inv_def log_inv_def
        clear_def)
next
  case (SetProjection w h)
  with assms show ?thesis by (auto intro: setProjection_inv)
next
  case (SetClearColor r g b a)
  with assms show ?thesis
    by (auto simp: renderer_inv_def buffer_inv_def offset_inv_def cache_inv_def log_inv_def
        setClearColor_def)
next
  case (UploadImage img)
  from assms have b: "buffer_inv s" and c: "cache_inv s" and l: "log_inv s"
    by (simp_all add: renderer_inv_def)
  obtain cs where cs: "gl (snd (uploadImage img s)) = gl s @ cs"
    "\<forall>c \<in> set cs. \<not> is_draw c \<and> \<not> writes_index_buffer c"
    using uploadImage_gl [of img s] by auto
  have "filter writes_index_buffer cs = []" using cs(2) by (simp add: filter_empty_conv)
  moreover have "\<And>n. DrawElements n \<notin> set cs" using cs(2) by force
  ultimately have "log_inv (snd (uploadImage img s))" using l by (auto simp: log_inv_def cs(1))
  moreover have "buffer_inv (snd (uploadImage img s))"
    using b by (simp add: buffer_inv_def offset_inv_def)
  ultimately show ?thesis
    using UploadImage assms(2) uploadImage_cache_inv [OF c, of img]
    by (auto simp: renderer_inv_def)
next
  case (AssignColor col)
  with assms show ?thesis
    by (auto simp: renderer_inv_def buffer_inv_def offset_inv_def cache_inv_def log_inv_def)
qed

lemma reachable_inv: "reachable s \<Longrightarrow> renderer_inv s"
  by (induction rule: reachable.induct) (auto intro: constructor_inv step_inv)

lemma run_reachable: "reachable s \<Longrightarrow> run cs s = Inr s' \<Longrightarrow> reachable s'"
proof (induction cs arbitrary: s)
  case Nil
  then show ?case by simp
next
  case (Cons c cs)
  then show ?case by (auto split: sum.splits intro: reachable_step)
qed

subsection \<open>A visible draw in a reachable state\<close>

lemma example_constructed: "constructor example_canvas = Inr example_renderer"
  by (simp add: example_renderer_def constructor_def example_canvas_def Let_def)

lemma example_reachable: "reachable example_renderer"
  by (rule reachable_init [OF example_constructed])

lemmas example_fields = constructor_fields [OF example_constructed]

lemma drawImage_offset_inv:
  assumes "offset_inv s" and "drawImage img x y w h rx ry rw rh ang ox oy s = Inr s'"
  shows "offset_inv s'"
  using assms
  by (auto simp: drawImage_def offset_inv_def Let_def case_prod_beta resizeSB_def flush_def
      layout_defs split: if_splits sum.splits)

lemma reachable_visible_draw:
  assumes "reachable s" and "\<not> alpha (color s) < 1 / 256"
  shows "\<exists>s'. drawImage img x y w h rx ry rw rh ang ox oy s = Inr s'
     \<and> reachable s'
     \<and> length' s' = Suc (pending_slot s)
     \<and> sbOffset s' = 36 * pending_slot s + 36
     \<and> sbSize s' = (if sbSize s \<le> int (pending_slot s) then 2 * sbSize s else sbSize s)
     \<and> take (36 * pending_slot s) (stream s') = take (36 * pending_slot s) (stream s)
     \<and> take 36 (drop (36 * pending_slot s) (stream s')) = written_quad img x y w h rx ry rw rh ang ox oy s
     \<and> color s' = color s
     \<and> gl s' = gl (snd (uploadImage img (if MAX_LENGTH \<le> length' s then flush s else s)))"
proof -
  have b: "buffer_inv s" using reachable_inv [OF assms(1)] by (simp add: renderer_inv_def)
  from drawImage_visible [OF b assms(2), of img x y w h rx ry rw rh ang ox oy]
  obtain s' where s': "drawImage img x y w h rx ry rw rh ang ox oy s = Inr s'"
     "length' s' = Suc (pending_slot s)"
     "sbSize s' = (if sbSize s \<le> int (pending_slot s) then 2 * sbSize s else sbSize s)"
     "take (36 * pending_slot s) (stream s') = take (36 * pending_slot s) (stream s)"
     "take 36 (drop (36 * pending_slot s) (stream s')) = written_quad img x y w h rx ry rw rh ang ox oy s"
     "color s' = color s"
     "gl s' = gl (snd (uploadImage img (if MAX_LENGTH \<le> length' s then flush s else s)))"
     "buffer_inv s'"
    by blast
  have "reachable s'"
    using reachable_step [OF assms(1), of "DrawImage img x y w h rx ry rw rh ang ox oy" s'] s'(1)
    by simp
  moreover have "sbOffset s' = 36 * pending_slot s + 36"
    using s'(8,2) by (simp add: buffer_inv_def offset_inv_def layout_defs)
  ultimately show ?thesis using s' by simp
qed

subsection \<open>Reading a stored quad\<close>

lemma quad_vertices_list: "quad_vertices q = [4 * q, 4 * q + 1, 4 * q + 2, 4 * q + 3]"
  by (simp add: quad_vertices_def layout_defs upt_rec [of "4 * q"] upt_rec [of "Suc (4 * q)"]
      upt_rec [of "Suc (Suc (4 * q))"] upt_rec [of "Suc (Suc (Suc (4 * q)))"])

lemma slice_nth:
  assumes "take n (drop k buf) = xs" and "m < length xs"
  shows "buf ! (k + m) = xs ! m"
proof -
  have "m < n" "k + m < length buf" using assms by auto
  then show ?thesis using assms(1) by (metis nth_take nth_drop less_imp_le_nat le_add1 le_trans)
qed

lemma quad_vertex_fields:
  assumes "take 36 (drop (36 * q) buf) = quad_record v0 v1 v2 v3 col r0 r1 r2 r3 u"
  shows "map (vertex_position buf) (quad_vertices q) = [v0, v1, v2, v3]"
    and "map (vertex_color buf) (quad_vertices q) = [col, col, col, col]"
    and "map (vertex_region buf) (quad_vertices q) = [(r0, r1), (r2, r1), (r0, r3), (r2, r3)]"
    and "map (vertex_texture buf) (quad_vertices q) = [u, u, u, u]"
proof -
  obtain r g b a where col: "col = (r, g, b, a)" by (cases col) auto
  let ?xs = "quad_record v0 v1 v2 v3 col r0 r1 r2 r3 u"
  have xs: "?xs = [fst v0, snd v0, r, g, b, a, r0, r1, u, fst v1, snd v1, r, g, b, a, r2, r1, u,
      fst v2, snd v2, r, g, b, a, r0, r3, u, fst v3, snd v3, r, g, b, a, r2, r3, u]"
    by (simp add: quad_record_def vertex_record_def col)
  have len: "length ?xs = 36" by (simp add: xs)
  have n: "\<And>m. m < 36 \<Longrightarrow> buf ! (36 * q + m) = ?xs ! m"
    using slice_nth [OF assms] len by simp
  have e: "buf ! ((4 * q + j) * ELEMENT_SIZE + c) = ?xs ! (9 * j + c)" if "j < 4" "c < 9" for j c
  proof -
    have eq: "(4 * q + j) * ELEMENT_SIZE + c = 36 * q + (9 * j + c)" by (simp add: layout_defs)
    have lt: "9 * j + c < 36" using that by simp
    show ?thesis unfolding eq by (rule n [OF lt])
  qed
  have pos: "vertex_position buf (4 * q + j) = (?xs ! (9 * j + 0), ?xs ! (9 * j + 1))"
    if "j < 4" for j
    unfolding vertex_position_def VERTEX_ELEMENT_def add.assoc
    using e [OF that, of 0] e [OF that, of "0 + 1"] by simp
  have clr: "vertex_color buf (4 * q + j)
       = (?xs ! (9 * j + 2), ?xs ! (9 * j + 3), ?xs ! (9 * j + 4), ?xs ! (9 * j + 5))"
    if "j < 4" for j
    unfolding vertex_color_def COLOR_ELEMENT_def VERTEX_ELEMENT_def VERTEX_SIZE_def add.assoc
    using e [OF that, of "0 + 2"] e [OF that, of "0 + (2 + 1)"] e [OF that, of "0 + (2 + 2)"]
      e [OF that, of "0 + (2 + 3)"] by simp
  have reg: "vertex_region buf (4 * q + j) = (?xs ! (9 * j + 6), ?xs ! (9 * j + 7))"
    if "j < 4" for j
    unfolding vertex_region_def REGION_ELEMENT_def COLOR_ELEMENT_def VERTEX_ELEMENT_def
      VERTEX_SIZE_def COLOR_SIZE_def add.assoc
    using e [OF that, of "0 + (2 + 4)"] e [OF that, of "0 + (2 + (4 + 1))"] by simp
  have tex: "vertex_texture buf (4 * q + j) = ?xs ! (9 * j + 8)"
    if "j < 4" for j
    unfolding vertex_texture_def TEXTURE_ELEMENT_def REGION_ELEMENT_def COLOR_ELEMENT_def
      VERTEX_ELEMENT_def VERTEX_SIZE_def COLOR_SIZE_def REGION_SIZE_def add.assoc
    using e [OF that, of "0 + (2 + (4 + 2))"] by simp
  show "map (vertex_position buf) (quad_vertices q) = [v0, v1, v2, v3]"
    using pos [of 0] pos [of 1] pos [of 2] pos [of 3] by (simp add: quad_vertices_list xs)
  show "map (vertex_color buf) (quad_vertices q) = [col, col, col, col]"
    using clr [of 0] clr [of 1] clr [of 2] clr [of 3] by (simp add: quad_vertices_list xs [unfolded col] col)
  show "map (vertex_region buf) (quad_vertices q) = [(r0, r1), (r2, r1), (r0, r3), (r2, r3)]"
    using reg [of 0] reg [of 1] reg [of 2] reg [of 3] by (simp add: quad_vertices_list xs)
  show "map (vertex_texture buf) (quad_vertices q) = [u, u, u, u]"
    using tex [of 0] tex [of 1] tex [of 2] tex [of 3] by (simp add: quad_vertices_list xs)
qed


lemma corners_eq:
  "corners x y w h ang ox oy s =
     (if ang \<noteq> 0 then map (rotate_about (x + ox, y + oy) ang) (rect_corners x y w h)
      else rect_corners x y w h)"
  by (simp add: corners_def drawImage_corners_def rect_corners_def rotate_about_def Let_def
      mat3_identity_def mat3_translate_def mat3_rotate_def vec2_transformMat3_def algebra_simps)

lemma draw_fields:
  assumes "reachable s" and "\<not> alpha (color s) < 1 / 256"
  shows "\<exists>s'. drawImage img x y w h rx ry rw rh ang ox oy s = Inr s'
     \<and> reachable s' \<and> length' s' = Suc (pending_slot s)
     \<and> map (vertex_position (stream s')) (quad_vertices (pending_slot s)) = corners x y w h ang ox oy s
     \<and> map (vertex_color (stream s')) (quad_vertices (pending_slot s))
         = [color s, color s, color s, color s]
     \<and> map (vertex_region (stream s')) (quad_vertices (pending_slot s))
         = [(rx / real (naturalWidth img), ry / real (naturalHeight img)),
            ((rx + rw) / real (naturalWidth img), ry / real (naturalHeight img)),
            (rx / real (naturalWidth img), (ry + rh) / real (naturalHeight img)),
            ((rx + rw) / real (naturalWidth img), (ry + rh) / real (naturalHeight img))]
     \<and> map (vertex_texture (stream s')) (quad_vertices (pending_slot s))
         = replicate 4 (real (fst (uploadImage img s)))"
proof -
  from reachable_visible_draw [OF assms, of img x y w h rx ry rw rh ang ox oy]
  obtain s' where s': "drawImage img x y w h rx ry rw rh ang ox oy s = Inr s'"
    "reachable s'" "length' s' = Suc (pending_slot s)"
    "take 36 (drop (36 * pending_slot s) (stream s'))
       = written_quad img x y w h rx ry rw rh ang ox oy s"
    by blast
  obtain v0 v1 v2 v3 s3 where c: "drawImage_corners x y w h ang ox oy s = (v0, v1, v2, v3, s3)"
    by (cases "drawImage_corners x y w h ang ox oy s") auto
  have cs: "corners x y w h ang ox oy s = [v0, v1, v2, v3]" by (simp add: corners_def c)
  have wq: "written_quad img x y w h rx ry rw rh ang ox oy s =
      quad_record v0 v1 v2 v3 (color s)
        (rx / real (naturalWidth img)) (ry / real (naturalHeight img))
        ((rx + rw) / real (naturalWidth img)) ((ry + rh) / real (naturalHeight img))
        (real (fst (uploadImage img s)))"
    by (simp add: written_quad_def c)
  note f = quad_vertex_fields [OF s'(4) [unfolded wq]]
  show ?thesis
    using s'(1-3) f by (simp add: cs eval_nat_numeral)
qed

lemma example_half_red_reachable: "reachable example_half_red"
  using reachable_step [OF example_reachable, of "AssignColor (1, 0, 0, 1 / 2)"]
  by (simp add: example_half_red_def)

lemma example_slot [simp]:
  "pending_slot example_renderer = 0" "pending_slot example_half_red = 0"
  by (simp_all add: pending_slot_def example_half_red_def example_fields)

subsection \<open>Transparent draws\<close>

text \<open>
  Claim C3. A call of \<open>drawImage\<close> while the alpha of the draw colour is below \<open>1/256\<close>
  returns the renderer as it was: the stream buffer, the pending count, the write
  offset, the texture cache, the next unit and the log of WebGL calls (so no upload, no
  flush) are all unchanged.
\<close>

theorem drawImage_transparent_noop:
  "alpha (color s) < 1 / 256 \<Longrightarrow> drawImage img x y w h rx ry rw rh ang ox oy s = Inr s"
  by (simp add: drawImage_def)

theorem drawImage_transparent_noop_witness:
  "alpha (color (example_renderer\<lparr>color := (1, 1, 1, 0)\<rparr>)) < 1 / 256
   \<and> drawImage example_image 0 0 10 10 0 0 100 100 0 0 0 (example_renderer\<lparr>color := (1, 1, 1, 0)\<rparr>)
       = Inr (example_renderer\<lparr>color := (1, 1, 1, 0)\<rparr>)"
proof -
  have h: "alpha (color (example_renderer\<lparr>color := (1, 1, 1, 0)\<rparr>)) < 1 / 256" by simp
  from drawImage_transparent_noop [OF h] h show ?thesis by blast
qed

subsection \<open>The write offset\<close>

text \<open>
  Claim C10. The write offset is the pending quad count times the size of a quad
  (\<open>offset_inv\<close>, 36 floats per quad): the constructor establishes the equality,
  \<open>drawImage\<close>, \<open>flush\<close> and \<open>reset\<close> preserve it, and it holds in every reachable
  state. A visible draw in a reachable state stores its quad in the 36 floats right
  after the pending prefix, leaves that prefix as it was, and moves the offset just
  past the new quad.
\<close>

theorem offset_tracks_length:
  "(constructor cv = Inr s0 \<longrightarrow> offset_inv s0)
   \<and> (offset_inv s \<longrightarrow> drawImage img x y w h rx ry rw rh ang ox oy s = Inr s' \<longrightarrow> offset_inv s')
   \<and> (offset_inv s \<longrightarrow> offset_inv (flush s))
   \<and> offset_inv (reset s)
   \<and> (reachable t \<longrightarrow> offset_inv t)
   \<and> (reachable t \<longrightarrow> \<not> alpha (color t) < 1 / 256 \<longrightarrow>
        (\<exists>t'. drawImage img x y w h rx ry rw rh ang ox oy t = Inr t'
           \<and> sbOffset t' = 36 * pending_slot t + 36
           \<and> take (36 * pending_slot t) (stream t') = take (36 * pending_slot t) (stream t)
           \<and> take 36 (drop (36 * pending_slot t) (stream t'))
               = written_quad img x y w h rx ry rw rh ang ox oy t))"
proof (intro conjI impI)
  assume "constructor cv = Inr s0"
  then show "offset_inv s0" by (simp add: offset_inv_def constructor_fields)
next
  assume "offset_inv s" "drawImage img x y w h rx ry rw rh ang ox oy s = Inr s'"
  then show "offset_inv s'" by (rule drawImage_offset_inv)
next
  assume "offset_inv s"
  then show "offset_inv (flush s)" by (simp add: offset_inv_def)
next
  show "offset_inv (reset s)" by (simp add: offset_inv_def reset_def)
next
  assume "reachable t"
  then show "offset_inv t" using reachable_inv by (simp add: renderer_inv_def buffer_inv_def)
next
  assume "reachable t" "\<not> alpha (color t) < 1 / 256"
  from reachable_visible_draw [OF this, of img x y w h rx ry rw rh ang ox oy]
  show "\<exists>t'. drawImage img x y w h rx ry rw rh ang ox oy t = Inr t'
           \<and> sbOffset t' = 36 * pending_slot t + 36
           \<and> take (36 * pending_slot t) (stream t') = take (36 * pending_slot t) (stream t)
           \<and> take 36 (drop (36 * pending_slot t) (stream t'))
               = written_quad img x y w h rx ry rw rh ang ox oy t"
    by blast
qed

theorem offset_tracks_length_witness:
  "constructor example_canvas = Inr example_renderer
   \<and> reachable example_renderer
   \<and> \<not> alpha (color example_renderer) < 1 / 256
   \<and> offset_inv example_renderer
   \<and> offset_inv (flush example_renderer)
   \<and> (\<exists>t'. drawImage example_image 0 0 10 10 0 0 100 100 0 0 0 example_renderer = Inr t'
         \<and> offset_inv t' \<and> sbOffset t' = 36 \<and> length' t' = 1)"
proof -
  note inst = offset_tracks_length [of example_canvas example_renderer example_renderer
      example_image 0 0 10 10 0 0 100 100 0 0 0 _ example_renderer]
  have vis: "\<not> alpha (color example_renderer) < 1 / 256" by (simp add: example_fields)
  have oi: "offset_inv example_renderer" using inst example_constructed by blast
  from inst example_reachable vis
  obtain t' where t': "drawImage example_image 0 0 10 10 0 0 100 100 0 0 0 example_renderer = Inr t'"
    "sbOffset t' = 36 * pending_slot example_renderer + 36" by blast
  have "offset_inv t'"
    using offset_tracks_length [of example_canvas example_renderer example_renderer
      example_image 0 0 10 10 0 0 100 100 0 0 0 t' example_renderer] oi t'(1) by blast
  moreover have "sbOffset t' = 36"
    using t'(2) by (simp add: pending_slot_def example_fields MAX_LENGTH_def)
  ultimately have "offset_inv t' \<and> sbOffset t' = 36 \<and> length' t' = 1"
    by (auto simp: offset_inv_def layout_defs)
  moreover have "offset_inv (flush example_renderer)" using inst oi by blast
  ultimately show ?thesis using example_constructed example_reachable vis oi t'(1) by blast
qed

subsection \<open>The colour of a quad\<close>

text \<open>
  Claim C1, as amended. A call of \<open>drawImage\<close> that writes a quad (a reachable renderer,
  alpha not below \<open>1/256\<close>) stores the draw colour \<open>(r, g, b, a)\<close> unchanged in each of
  the four vertices of the quad. The premultiplication by alpha is done afterwards by
  the vertex shader, which turns the stored colour into \<open>(r * a, g * a, b * a, a)\<close>.
\<close>

theorem drawImage_stores_color:
  assumes "reachable s" and "\<not> alpha (color s) < 1 / 256"
  shows "\<exists>s'. drawImage img x y w h rx ry rw rh ang ox oy s = Inr s'
     \<and> (\<forall>v \<in> set (quad_vertices (pending_slot s)).
           vertex_color (stream s') v = color s
           \<and> vertex_shader_vColor (vertex_color (stream s') v)
               = (case color s of (r, g, b, a) \<Rightarrow> (r * a, g * a, b * a, a)))"
proof -
  from draw_fields [OF assms, of img x y w h rx ry rw rh ang ox oy]
  obtain s' where s': "drawImage img x y w h rx ry rw rh ang ox oy s = Inr s'"
    "map (vertex_color (stream s')) (quad_vertices (pending_slot s))
         = [color s, color s, color s, color s]"
    by metis
  have "\<forall>v \<in> set (quad_vertices (pending_slot s)). vertex_color (stream s') v = color s"
  proof
    fix v assume "v \<in> set (quad_vertices (pending_slot s))"
    then have "vertex_color (stream s') v \<in> set (map (vertex_color (stream s')) (quad_vertices (pending_slot s)))"
      by simp
    then show "vertex_color (stream s') v = color s" unfolding s'(2) by simp
  qed
  moreover have "vertex_shader_vColor (color s) = (case color s of (r, g, b, a) \<Rightarrow> (r * a, g * a, b * a, a))"
    by (cases "color s") simp
  ultimately show ?thesis using s'(1) by auto
qed

theorem drawImage_stores_color_witness:
  "reachable example_half_red \<and> \<not> alpha (color example_half_red) < 1 / 256
   \<and> (\<exists>s'. drawImage example_image 0 0 10 10 0 0 100 100 0 0 0 example_half_red = Inr s'
        \<and> vertex_color (stream s') 0 = (1, 0, 0, 1 / 2)
        \<and> vertex_shader_vColor (vertex_color (stream s') 0) = (1 / 2, 0, 0, 1 / 2)
        \<and> vertex_color (stream s') 3 = (1, 0, 0, 1 / 2)
        \<and> vertex_shader_vColor (vertex_color (stream s') 3) = (1 / 2, 0, 0, 1 / 2))"
proof -
  have vis: "\<not> alpha (color example_half_red) < 1 / 256" by (simp add: example_half_red_def)
  have c: "color example_half_red = (1, 0, 0, 1 / 2)" by (simp add: example_half_red_def)
  from drawImage_stores_color [OF example_half_red_reachable vis, of example_image 0 0 10 10 0 0 100 100 0 0 0]
  obtain s' where s': "drawImage example_image 0 0 10 10 0 0 100 100 0 0 0 example_half_red = Inr s'"
    "\<forall>v \<in> set (quad_vertices (pending_slot example_half_red)).
        vertex_color (stream s') v = color example_half_red
        \<and> vertex_shader_vColor (vertex_color (stream s') v)
            = (case color example_half_red of (r, g, b, a) \<Rightarrow> (r * a, g * a, b * a, a))"
    by blast
  have m: "0 \<in> set (quad_vertices (pending_slot example_half_red))"
    "3 \<in> set (quad_vertices (pending_slot example_half_red))"
    by (simp_all add: quad_vertices_list)
  have "vertex_color (stream s') 0 = (1, 0, 0, 1 / 2)
        \<and> vertex_shader_vColor (vertex_color (stream s') 0) = (1 / 2, 0, 0, 1 / 2)"
    using bspec [OF s'(2) m(1)] by (simp add: c)
  moreover have "vertex_color (stream s') 3 = (1, 0, 0, 1 / 2)
        \<and> vertex_shader_vColor (vertex_color (stream s') 3) = (1 / 2, 0, 0, 1 / 2)"
    using bspec [OF s'(2) m(2)] by (simp add: c)
  ultimately show ?thesis
    using example_half_red_reachable vis s'(1) by blast
qed

text \<open>
  The claim as it was stated has the premultiplied colour in the buffer. With the draw
  colour \<open>(1, 0, 0, 1/2)\<close>, whose channels are exact as 32-bit floats, the call succeeds
  and every vertex of the quad holds \<open>(1, 0, 0, 1/2)\<close>, which is not \<open>(1/2, 0, 0, 1/2)\<close>.
\<close>

theorem drawImage_stores_color_counterexample:
  "\<not> isl (drawImage example_image 0 0 10 10 0 0 100 100 0 0 0 example_half_red)
   \<and> map (vertex_color (stream (projr (drawImage example_image 0 0 10 10 0 0 100 100 0 0 0 example_half_red))))
       (quad_vertices 0) = [(1, 0, 0, 1 / 2), (1, 0, 0, 1 / 2), (1, 0, 0, 1 / 2), (1, 0, 0, 1 / 2)]
   \<and> ((1, 0, 0, 1 / 2) :: rgba) \<noteq> (1 / 2, 0, 0, 1 / 2)"
proof -
  have vis: "\<not> alpha (color example_half_red) < 1 / 256" by (simp add: example_half_red_def)
  have c: "color example_half_red = (1, 0, 0, 1 / 2)" by (simp add: example_half_red_def)
  from draw_fields [OF example_half_red_reachable vis, of example_image 0 0 10 10 0 0 100 100 0 0 0]
  obtain s' where s': "drawImage example_image 0 0 10 10 0 0 100 100 0 0 0 example_half_red = Inr s'"
    "map (vertex_color (stream s')) (quad_vertices (pending_slot example_half_red))
         = [color example_half_red, color example_half_red, color example_half_red,
            color example_half_red]"
    by metis
  show ?thesis
    using s'(2) by (simp add: s'(1) c)
qed

subsection \<open>The corners of a quad\<close>

text \<open>
  Claim C9. A call of \<open>drawImage\<close> that writes a quad stores, for a non-zero angle, the
  four corners of the rectangle \<open>(x, y, width, height)\<close>, each moved so that the pivot
  \<open>(x + rotateOriginX, y + rotateOriginY)\<close> is the origin, rotated counter-clockwise by
  the angle and moved back; for the angle \<open>0\<close> it stores the corners of the rectangle
  themselves.
\<close>

theorem drawImage_corner_positions:
  assumes "reachable s" and "\<not> alpha (color s) < 1 / 256"
  shows "\<exists>s'. drawImage img x y w h rx ry rw rh ang ox oy s = Inr s'
     \<and> (ang \<noteq> 0 \<longrightarrow>
          map (vertex_position (stream s')) (quad_vertices (pending_slot s))
            = map (rotate_about (x + ox, y + oy) ang) (rect_corners x y w h))
     \<and> (ang = 0 \<longrightarrow>
          map (vertex_position (stream s')) (quad_vertices (pending_slot s))
            = rect_corners x y w h)"
proof -
  from draw_fields [OF assms, of img x y w h rx ry rw rh ang ox oy]
  obtain s' where s': "drawImage img x y w h rx ry rw rh ang ox oy s = Inr s'"
    "map (vertex_position (stream s')) (quad_vertices (pending_slot s)) = corners x y w h ang ox oy s"
    by metis
  show ?thesis
    by (rule exI [of _ s']) (simp add: s' corners_eq)
qed

theorem drawImage_corner_positions_witness:
  "reachable example_renderer \<and> \<not> alpha (color example_renderer) < 1 / 256 \<and> pi \<noteq> 0
   \<and> (\<exists>s'. drawImage example_image 0 0 100 100 0 0 100 100 pi 50 50 example_renderer = Inr s'
         \<and> map (vertex_position (stream s')) (quad_vertices 0)
             = [(100, 100), (0, 100), (100, 0), (0, 0)])
   \<and> (\<exists>s'. drawImage example_image 0 0 100 100 0 0 100 100 0 50 50 example_renderer = Inr s'
         \<and> map (vertex_position (stream s')) (quad_vertices 0)
             = [(0, 0), (100, 0), (0, 100), (100, 100)])"
proof -
  have vis: "\<not> alpha (color example_renderer) < 1 / 256" by (simp add: example_fields)
  from drawImage_corner_positions [OF example_reachable vis, of example_image 0 0 100 100 0 0 100 100 pi 50 50]
  have a: "\<exists>s'. drawImage example_image 0 0 100 100 0 0 100 100 pi 50 50 example_renderer = Inr s'
         \<and> map (vertex_position (stream s')) (quad_vertices 0)
             = [(100, 100), (0, 100), (100, 0), (0, 0)]"
    by (simp add: rect_corners_def rotate_about_def)
  from drawImage_corner_positions [OF example_reachable vis, of example_image 0 0 100 100 0 0 100 100 0 50 50]
  have b: "\<exists>s'. drawImage example_image 0 0 100 100 0 0 100 100 0 50 50 example_renderer = Inr s'
         \<and> map (vertex_position (stream s')) (quad_vertices 0)
             = [(0, 0), (100, 0), (0, 100), (100, 100)]"
    by (simp add: rect_corners_def)
  show ?thesis using a b vis example_reachable by simp
qed

subsection \<open>The index table\<close>

lemma createIB_length: "length createIB = MAX_LENGTH * INDICES_PER_QUAD"
  by (simp add: createIB_def)

lemma indices_bound: "k < 6 \<Longrightarrow> indices ! k \<le> 3"
proof -
  assume "k < 6"
  then have "k \<in> {0, 1, 2, 3, 4, 5}" by auto
  then show ?thesis by (auto simp: indices_def)
qed

lemma createIB_nth:
  assumes "i < MAX_LENGTH * INDICES_PER_QUAD"
  shows "unat (createIB ! i) = indices ! (i mod 6) + (i div 6) * 4"
proof -
  have d: "i div 6 \<le> 15999" using assms by (simp add: MAX_LENGTH_def layout_defs)
  have m: "indices ! (i mod 6) \<le> 3" by (rule indices_bound) simp
  have "indices ! (i mod 6) + (i div 6) * 4 < 2 ^ LENGTH(16)" using d m by simp
  then have "unat (word_of_nat (indices ! (i mod 6) + (i div 6) * 4) :: 16 word)
               = indices ! (i mod 6) + (i div 6) * 4"
    by (rule of_nat_inverse [OF refl])
  then show ?thesis using assms by (simp add: createIB_def layout_defs)
qed

text \<open>
  Claim C8. The index table has \<open>MAX_LENGTH * INDICES_PER_QUAD = 16000 * 6\<close> entries;
  entry \<open>i\<close> is \<open>[0, 1, 2, 2, 1, 3] ! (i mod 6) + (i div 6) * 4\<close>, read as an unsigned
  16-bit value without wrap-around because \<open>16000 * 4 = 64000 \<le> 65536\<close>, and so is one
  of the four vertices of quad \<open>i div 6\<close>. It is uploaded by the constructor, and in a
  reachable state that upload is the only write to the element array buffer.
\<close>

theorem createIB_table:
  "length createIB = MAX_LENGTH * INDICES_PER_QUAD
   \<and> MAX_LENGTH * INDICES_PER_QUAD = 16000 * 6
   \<and> MAX_LENGTH * ELEMENTS_PER_QUAD = 64000 \<and> (64000 :: nat) \<le> 65536
   \<and> (\<forall>i < MAX_LENGTH * INDICES_PER_QUAD.
         unat (createIB ! i) = [0, 1, 2, 2, 1, 3] ! (i mod 6) + (i div 6) * 4
         \<and> (i div 6) * ELEMENTS_PER_QUAD \<le> unat (createIB ! i)
         \<and> unat (createIB ! i) < (i div 6) * ELEMENTS_PER_QUAD + ELEMENTS_PER_QUAD)
   \<and> (reachable s \<longrightarrow>
         filter writes_index_buffer (gl s) = [BufferDataIndices ELEMENT_ARRAY_BUFFER createIB])"
proof (intro conjI allI impI)
  show "length createIB = MAX_LENGTH * INDICES_PER_QUAD" by (rule createIB_length)
  show "MAX_LENGTH * INDICES_PER_QUAD = 16000 * 6" by (simp add: MAX_LENGTH_def layout_defs)
  show "MAX_LENGTH * ELEMENTS_PER_QUAD = 64000" by (simp add: MAX_LENGTH_def layout_defs)
  show "(64000 :: nat) \<le> 65536" by simp
next
  fix i assume i: "i < MAX_LENGTH * INDICES_PER_QUAD"
  show "unat (createIB ! i) = [0, 1, 2, 2, 1, 3] ! (i mod 6) + (i div 6) * 4"
    using createIB_nth [OF i] by (simp add: indices_def)
  have "indices ! (i mod 6) \<le> 3" by (rule indices_bound) simp
  then show "(i div 6) * ELEMENTS_PER_QUAD \<le> unat (createIB ! i)"
    and "unat (createIB ! i) < (i div 6) * ELEMENTS_PER_QUAD + ELEMENTS_PER_QUAD"
    using createIB_nth [OF i] by (simp_all add: layout_defs)
next
  assume "reachable s"
  then show "filter writes_index_buffer (gl s) = [BufferDataIndices ELEMENT_ARRAY_BUFFER createIB]"
    using reachable_inv by (simp add: renderer_inv_def log_inv_def)
qed

theorem createIB_table_witness:
  "(7 :: nat) < MAX_LENGTH * INDICES_PER_QUAD \<and> unat (createIB ! 7) = 5
   \<and> 1 * ELEMENTS_PER_QUAD \<le> unat (createIB ! 7)
   \<and> unat (createIB ! 7) < 1 * ELEMENTS_PER_QUAD + ELEMENTS_PER_QUAD
   \<and> reachable example_renderer
   \<and> filter writes_index_buffer (gl example_renderer)
       = [BufferDataIndices ELEMENT_ARRAY_BUFFER createIB]"
proof -
  have h: "(7 :: nat) < MAX_LENGTH * INDICES_PER_QUAD" by (simp add: MAX_LENGTH_def layout_defs)
  from createIB_table [of example_renderer] h
  have "unat (createIB ! 7) = [0, 1, 2, 2, 1, 3] ! (7 mod 6) + (7 div 6) * 4
         \<and> (7 div 6) * ELEMENTS_PER_QUAD \<le> unat (createIB ! 7)
         \<and> unat (createIB ! 7) < (7 div 6) * ELEMENTS_PER_QUAD + ELEMENTS_PER_QUAD"
    by blast
  moreover from createIB_table [of example_renderer] example_reachable
  have "filter writes_index_buffer (gl example_renderer)
       = [BufferDataIndices ELEMENT_ARRAY_BUFFER createIB]"
    by blast
  ultimately show ?thesis using h example_reachable by simp
qed


subsection \<open>The texture unit cache\<close>

lemma cache_card:
  assumes "cache_inv s"
  shows "card (dom (cache s)) = nextUnit s"
proof -
  from assms have inj: "inj_on (cache s) (dom (cache s))" and ran: "ran (cache s) = {..< nextUnit s}"
    by (simp_all add: cache_inv_def)
  have "cache s ` dom (cache s) = Some ` ran (cache s)"
    by (auto simp: ran_def image_iff dom_def) force
  then have "card (cache s ` dom (cache s)) = card (ran (cache s))"
    by (simp add: card_image)
  then show ?thesis using inj ran by (simp add: card_image)
qed

lemma drawImage_cache_mono:
  assumes "drawImage i x y w h rx ry rw rh ang ox oy s = Inr s'" and "cache s img = Some u"
  shows "cache s' img = Some u"
  using assms
  by (auto simp: drawImage_def Let_def case_prod_beta resizeSB_def uploadImage_def
      split: if_splits sum.splits option.splits)

lemma step_cache_mono:
  assumes "step c s = Inr s'" and "cache s img = Some u"
  shows "cache s' img = Some u"
proof (cases c)
  case (DrawImage i x y w h rx ry rw rh ang ox oy)
  with assms show ?thesis by (auto intro: drawImage_cache_mono)
next
  case (UploadImage i)
  with assms show ?thesis by (auto simp: uploadImage_def Let_def split: option.splits)
qed (use assms in \<open>auto simp: reset_def clear_def setProjection_def setClearColor_def Let_def\<close>)

text \<open>
  Claim C5. \<open>uploadImage\<close> returns the cached unit of a handle it has seen and changes
  nothing (no upload); for a new handle it returns \<open>nextUnit\<close>, uploads the image once and
  records the unit. In a reachable state the new unit is the number of handles seen so
  far (the K-th distinct handle gets unit K-1), it is above every unit assigned before,
  and distinct handles have distinct units. No call ever changes the unit of a handle.
  Nothing compares the unit with \<open>maxTextures\<close>: at or beyond that bound a new handle
  still gets the next number.
\<close>

theorem uploadImage_units:
  "(cache s img = Some u \<longrightarrow> uploadImage img s = (u, s))
   \<and> (cache s img = None \<longrightarrow>
        uploadImage img s =
          (nextUnit s,
           s\<lparr>nextUnit := nextUnit s + 1,
             gl := gl s @ [ActiveTexture (nextUnit s), BindTexture (UnitTexture (nextUnit s)),
                           TexImage2D img, TexParameteri MIN_FILTER_LINEAR,
                           TexParameteri WRAP_S_CLAMP_TO_EDGE, TexParameteri WRAP_T_CLAMP_TO_EDGE],
             cache := (cache s)(img \<mapsto> nextUnit s)\<rparr>))
   \<and> length (filter is_texture_upload (gl (snd (uploadImage img s))))
       = length (filter is_texture_upload (gl s)) + (if cache s img = None then 1 else 0)
   \<and> (reachable s \<longrightarrow> cache s img = None \<longrightarrow> fst (uploadImage img s) = card (dom (cache s)))
   \<and> (reachable s \<longrightarrow> cache s img = None \<longrightarrow> cache s img' = Some u'
        \<longrightarrow> u' < fst (uploadImage img s))
   \<and> (reachable s \<longrightarrow> cache s img = Some u \<longrightarrow> cache s img' = Some u \<longrightarrow> img = img')
   \<and> (step c s = Inr s' \<longrightarrow> cache s img = Some u \<longrightarrow> cache s' img = Some u)
   \<and> (cache s img = None \<longrightarrow> maxTextures s \<le> nextUnit s \<longrightarrow>
        fst (uploadImage img s) = nextUnit s
        \<and> nextUnit (snd (uploadImage img s)) = nextUnit s + 1)"
proof (intro conjI impI)
  assume "cache s img = Some u"
  then show "uploadImage img s = (u, s)" by (rule uploadImage_hit)
next
  assume "cache s img = None"
  then show "uploadImage img s =
          (nextUnit s,
           s\<lparr>nextUnit := nextUnit s + 1,
             gl := gl s @ [ActiveTexture (nextUnit s), BindTexture (UnitTexture (nextUnit s)),
                           TexImage2D img, TexParameteri MIN_FILTER_LINEAR,
                           TexParameteri WRAP_S_CLAMP_TO_EDGE, TexParameteri WRAP_T_CLAMP_TO_EDGE],
             cache := (cache s)(img \<mapsto> nextUnit s)\<rparr>)"
    by (rule uploadImage_miss)
next
  show "length (filter is_texture_upload (gl (snd (uploadImage img s))))
       = length (filter is_texture_upload (gl s)) + (if cache s img = None then 1 else 0)"
    by (cases "cache s img") (simp_all add: uploadImage_hit uploadImage_miss)
next
  assume r: "reachable s" and n: "cache s img = None"
  from reachable_inv [OF r] have c: "cache_inv s" by (simp add: renderer_inv_def)
  show "fst (uploadImage img s) = card (dom (cache s))"
    using cache_card [OF c] n by (simp add: uploadImage_miss)
next
  assume r: "reachable s" and n: "cache s img = None" and o: "cache s img' = Some u'"
  from reachable_inv [OF r] have "ran (cache s) = {..< nextUnit s}"
    by (simp add: renderer_inv_def cache_inv_def)
  moreover have "u' \<in> ran (cache s)" using o by (auto simp: ran_def)
  ultimately show "u' < fst (uploadImage img s)" using n by (simp add: uploadImage_miss)
next
  assume r: "reachable s" and a: "cache s img = Some u" and b: "cache s img' = Some u"
  from reachable_inv [OF r] have "inj_on (cache s) (dom (cache s))"
    by (simp add: renderer_inv_def cache_inv_def)
  then show "img = img'" using a b by (auto dest!: inj_onD [where x = img and y = img'])
next
  assume "step c s = Inr s'" "cache s img = Some u"
  then show "cache s' img = Some u" by (rule step_cache_mono)
next
  assume "cache s img = None" "maxTextures s \<le> nextUnit s"
  then show "fst (uploadImage img s) = nextUnit s" by (simp add: uploadImage_miss)
next
  assume "cache s img = None" "maxTextures s \<le> nextUnit s"
  then show "nextUnit (snd (uploadImage img s)) = nextUnit s + 1" by (simp add: uploadImage_miss)
qed

lemma narrow_constructed:
  "constructor example_narrow_canvas = Inr (projr (constructor example_narrow_canvas))"
  by (simp add: constructor_def example_narrow_canvas_def example_canvas_def Let_def)

lemma example_loaded_reachable: "reachable example_loaded"
  using reachable_step [OF reachable_init [OF narrow_constructed], of "UploadImage example_image"]
  by (simp add: example_loaded_def)

lemma example_loaded_fields:
  "cache example_loaded = [example_image \<mapsto> 0]" "nextUnit example_loaded = 1"
  "maxTextures example_loaded = 1"
  using constructor_fields [OF narrow_constructed]
  by (simp_all add: example_loaded_def uploadImage_miss example_narrow_canvas_def
      example_canvas_def)

theorem uploadImage_units_witness:
  "reachable example_loaded
   \<and> cache example_loaded example_image = Some 0
   \<and> cache example_loaded example_other_image = None
   \<and> maxTextures example_loaded \<le> nextUnit example_loaded
   \<and> uploadImage example_image example_loaded = (0, example_loaded)
   \<and> fst (uploadImage example_other_image example_loaded) = 1
   \<and> card (dom (cache example_loaded)) = 1
   \<and> step (UploadImage example_other_image) example_loaded
       = Inr (snd (uploadImage example_other_image example_loaded))
   \<and> cache (snd (uploadImage example_other_image example_loaded)) example_image = Some 0"
proof -
  have hit: "cache example_loaded example_image = Some 0"
    by (simp add: example_loaded_fields)
  have miss: "cache example_loaded example_other_image = None"
    by (simp add: example_loaded_fields example_image_def example_other_image_def)
  have full: "maxTextures example_loaded \<le> nextUnit example_loaded"
    by (simp add: example_loaded_fields)
  have st: "step (UploadImage example_other_image) example_loaded
       = Inr (snd (uploadImage example_other_image example_loaded))" by simp
  note inst = uploadImage_units [where s = example_loaded and img = example_image and u = 0
      and c = "UploadImage example_other_image"
      and s' = "snd (uploadImage example_other_image example_loaded)"]
  note inst2 = uploadImage_units [where s = example_loaded and img = example_other_image
      and img' = example_image and u' = 0]
  have "uploadImage example_image example_loaded = (0, example_loaded)"
    using inst hit by blast
  moreover have "cache (snd (uploadImage example_other_image example_loaded)) example_image = Some 0"
    using inst hit st by blast
  moreover have "fst (uploadImage example_other_image example_loaded) = nextUnit example_loaded"
    using inst2 miss full by blast
  moreover have "fst (uploadImage example_other_image example_loaded) = card (dom (cache example_loaded))"
    using inst2 miss example_loaded_reachable by blast
  ultimately show ?thesis
    using hit miss full st example_loaded_reachable by (simp add: example_loaded_fields)
qed

subsection \<open>Flushing\<close>

lemma drawImage_length_pos:
  assumes "drawImage i x y w h rx ry rw rh ang ox oy s = Inr s'" and "0 < length' s"
  shows "0 < length' s'"
  using assms
  by (auto simp: drawImage_def Let_def case_prod_beta split: if_splits sum.splits)

lemma example_pending:
  "drawImage example_image 0 0 10 10 0 0 100 100 0 0 0 example_renderer = Inr example_pending"
  "reachable example_pending" "length' example_pending = 1"
  "filter is_draw (gl example_pending) = []"
  "sbOffset example_pending = 36"
proof -
  have vis: "\<not> alpha (color example_renderer) < 1 / 256" by (simp add: example_fields)
  from reachable_visible_draw [OF example_reachable vis, of example_image 0 0 10 10 0 0 100 100 0 0 0]
  obtain s' where s': "drawImage example_image 0 0 10 10 0 0 100 100 0 0 0 example_renderer = Inr s'"
    "reachable s'" "length' s' = Suc (pending_slot example_renderer)"
    "gl s' = gl (snd (uploadImage example_image
        (if MAX_LENGTH \<le> length' example_renderer then flush example_renderer else example_renderer)))"
    "sbOffset s' = 36 * pending_slot example_renderer + 36"
    by metis
  have e: "example_pending = s'" by (simp add: example_pending_def s'(1))
  show "drawImage example_image 0 0 10 10 0 0 100 100 0 0 0 example_renderer = Inr example_pending"
    "reachable example_pending" "length' example_pending = 1"
    using s' by (simp_all add: e)
  obtain cs where cs: "gl (snd (uploadImage example_image example_renderer)) = gl example_renderer @ cs"
    "\<forall>c \<in> set cs. \<not> is_draw c \<and> \<not> writes_index_buffer c"
    using uploadImage_gl [of example_image example_renderer] by auto
  have "filter is_draw cs = []" using cs(2) by (simp add: filter_empty_conv)
  then show "filter is_draw (gl example_pending) = []"
    using s'(4) cs(1) by (simp add: e example_fields MAX_LENGTH_def)
  show "sbOffset example_pending = 36"
    using s'(5) by (simp add: e)
qed

lemma reset_draws: "filter is_draw (gl (reset s)) = filter is_draw (gl s)"
  by (simp add: reset_def filter_concat comp_def)

text \<open>
  Claim C7, as amended. \<open>flush\<close> with no pending quad changes nothing and issues no
  draw call; with pending quads it uploads exactly the written prefix, issues one draw
  of \<open>length * 6\<close> indices and sets the write offset and the pending length to \<open>0\<close>,
  leaving the capacity, the stream array, the texture cache and the next unit as they
  were. A call that takes the pending length from a positive value to \<open>0\<close> is such a
  flush, called directly or through \<open>setProjection\<close>, or it is \<open>reset\<close>, which zeroes the
  pending length and the write offset without a draw call (it only sets the sampler
  uniform and rebinds the empty texture to every unit) and leaves every other field of
  the renderer as it was.
\<close>

theorem flush_effect:
  "(length' s = 0 \<longrightarrow> flush s = s)
   \<and> (0 < length' s \<longrightarrow>
        flush s = s\<lparr>gl := gl s @ [BufferSubData ARRAY_BUFFER 0
                                     (take (length' s * ELEMENT_SIZE * ELEMENTS_PER_QUAD) (stream s)),
                                   DrawElements (length' s * INDICES_PER_QUAD)],
                     sbOffset := 0, length' := 0\<rparr>)
   \<and> (step c s = Inr s' \<longrightarrow> 0 < length' s \<longrightarrow> length' s' = 0 \<longrightarrow>
        (c = Flush \<and> s' = flush s)
        \<or> (\<exists>w h. c = SetProjection w h
              \<and> gl s' = gl (flush s) @ [Viewport 0 0 w h,
                                         UniformMatrix3fv [2 / w, 0, 0, 0, - 2 / h, 0, - 1, 1, 1]])
        \<or> (c = Reset \<and> s' = reset s))
   \<and> length' (reset s) = 0 \<and> filter is_draw (gl (reset s)) = filter is_draw (gl s)
   \<and> sbSize (flush s) = sbSize s \<and> stream (flush s) = stream s
   \<and> cache (flush s) = cache s \<and> nextUnit (flush s) = nextUnit s
   \<and> sbOffset (reset s) = 0
   \<and> reset s = s\<lparr>sbOffset := 0, length' := 0,
                   gl := gl s @ Uniform1iv [0 ..< maxTextures s]
                           # concat (map (\<lambda>i. [ActiveTexture i, BindTexture EmptyTexture])
                                       [0 ..< maxTextures s])\<rparr>"
proof (intro conjI impI)
  assume "length' s = 0"
  then show "flush s = s" by (simp add: flush_def)
next
  assume "0 < length' s"
  then show "flush s = s\<lparr>gl := gl s @ [BufferSubData ARRAY_BUFFER 0
                                     (take (length' s * ELEMENT_SIZE * ELEMENTS_PER_QUAD) (stream s)),
                                   DrawElements (length' s * INDICES_PER_QUAD)],
                     sbOffset := 0, length' := 0\<rparr>"
    by (simp add: flush_def Let_def)
next
  assume st: "step c s = Inr s'" and pos: "0 < length' s" and z: "length' s' = 0"
  show "(c = Flush \<and> s' = flush s)
        \<or> (\<exists>w h. c = SetProjection w h
              \<and> gl s' = gl (flush s) @ [Viewport 0 0 w h,
                                         UniformMatrix3fv [2 / w, 0, 0, 0, - 2 / h, 0, - 1, 1, 1]])
        \<or> (c = Reset \<and> s' = reset s)"
  proof (cases c)
    case (DrawImage i x y w h rx ry rw rh ang ox oy)
    with st pos have "0 < length' s'" by (auto dest: drawImage_length_pos)
    with z show ?thesis by simp
  next
    case (SetProjection w h)
    with st show ?thesis by (auto simp: setProjection_def Let_def)
  next
    case (UploadImage i)
    with st pos z show ?thesis by auto
  qed (use st pos z in \<open>auto simp: clear_def setClearColor_def\<close>)
next
  show "length' (reset s) = 0" by (simp add: reset_def)
  show "filter is_draw (gl (reset s)) = filter is_draw (gl s)" by (rule reset_draws)
  show "sbOffset (reset s) = 0" by (simp add: reset_def)
  show "reset s = s\<lparr>sbOffset := 0, length' := 0,
                   gl := gl s @ Uniform1iv [0 ..< maxTextures s]
                           # concat (map (\<lambda>i. [ActiveTexture i, BindTexture EmptyTexture])
                                       [0 ..< maxTextures s])\<rparr>"
    by (simp add: reset_def)
qed simp_all

theorem flush_effect_witness:
  "length' example_renderer = 0 \<and> flush example_renderer = example_renderer
   \<and> 0 < length' example_pending
   \<and> flush example_pending
       = example_pending\<lparr>gl := gl example_pending @
            [BufferSubData ARRAY_BUFFER 0 (take 36 (stream example_pending)), DrawElements 6],
            sbOffset := 0, length' := 0\<rparr>
   \<and> step Flush example_pending = Inr (flush example_pending)
   \<and> length' (flush example_pending) = 0
   \<and> sbOffset example_pending = 36
   \<and> sbOffset (reset example_pending) = 0 \<and> length' (reset example_pending) = 0"
proof -
  have z: "length' example_renderer = 0" by (simp add: example_fields)
  have p: "0 < length' example_pending" by (simp add: example_pending)
  from flush_effect [of example_pending]
  have "sbOffset (reset example_pending) = 0 \<and> length' (reset example_pending) = 0"
    by blast
  moreover from flush_effect [of example_renderer] z
  have "flush example_renderer = example_renderer" by blast
  moreover from flush_effect [of example_pending] p
  have "flush example_pending
       = example_pending\<lparr>gl := gl example_pending @
            [BufferSubData ARRAY_BUFFER 0
               (take (length' example_pending * ELEMENT_SIZE * ELEMENTS_PER_QUAD) (stream example_pending)),
             DrawElements (length' example_pending * INDICES_PER_QUAD)],
            sbOffset := 0, length' := 0\<rparr>"
    by blast
  ultimately show ?thesis using z p by (simp add: example_pending layout_defs)
qed

text \<open>
  The claim as it was stated lets the pending length go to \<open>0\<close> only in a flush. In the
  reachable renderer with one pending quad, \<open>reset\<close> takes the length from 1 to 0, the
  log has no draw call afterwards, and the result is not that of \<open>flush\<close>.
\<close>

theorem flush_effect_counterexample:
  "reachable example_pending
   \<and> step Reset example_pending = Inr (reset example_pending)
   \<and> 0 < length' example_pending
   \<and> length' (reset example_pending) = 0
   \<and> filter is_draw (gl (reset example_pending)) = []
   \<and> reset example_pending \<noteq> flush example_pending"
proof -
  have "filter is_draw (gl (flush example_pending)) \<noteq> []"
    by (simp add: flush_gl example_pending)
  moreover have "filter is_draw (gl (reset example_pending)) = []"
    by (simp add: reset_draws example_pending)
  ultimately have "reset example_pending \<noteq> flush example_pending" by metis
  then show ?thesis by (simp add: example_pending reset_draws) (simp add: reset_def)
qed

subsection \<open>A batch of draws\<close>

lemma vertex_prefix:
  assumes "take m a = take m b" and "v * 9 + 9 \<le> m"
  shows "vertex_position a v = vertex_position b v"
    and "vertex_color a v = vertex_color b v"
    and "vertex_region a v = vertex_region b v"
    and "vertex_texture a v = vertex_texture b v"
proof -
  have n: "a ! i = b ! i" if "i < m" for i
    using assms(1) that by (metis nth_take)
  show "vertex_position a v = vertex_position b v"
    using assms(2) by (simp add: vertex_position_def layout_defs n)
  show "vertex_color a v = vertex_color b v"
    using assms(2) by (simp add: vertex_color_def layout_defs n)
  show "vertex_region a v = vertex_region b v"
    using assms(2) by (simp add: vertex_region_def layout_defs n)
  show "vertex_texture a v = vertex_texture b v"
    using assms(2) by (simp add: vertex_texture_def layout_defs n)
qed

lemma quad_vertices_bound: "v \<in> set (quad_vertices q) \<Longrightarrow> v * 9 + 9 \<le> 36 * Suc q"
  by (auto simp: quad_vertices_def layout_defs)

lemma upt_quads:
  assumes "n < n'"
  shows "[4 * n ..< 4 * n'] = quad_vertices n @ [4 * Suc n ..< 4 * n']"
proof -
  obtain k where k: "4 * n' = 4 * n + 4 + k"
    using assms by (metis Suc_leI add.commute le_Suc_ex mult_Suc_right mult_le_mono2)
  have e: "4 * Suc n = 4 * n + 4" by simp
  show ?thesis
    unfolding quad_vertices_def ELEMENTS_PER_QUAD_def k e
    by (rule upt_add_eq_append) simp
qed

lemma take_take_le: "m \<le> n \<Longrightarrow> take n a = take n b \<Longrightarrow> take m a = take m b"
  by (metis min.absorb_iff2 take_take min.commute)

lemma run_plain:
  assumes "reachable s" and "\<not> alpha (color s) < 1 / 256"
    and "\<forall>c \<in> set cs. plain_draw c" and "length' s + length cs \<le> MAX_LENGTH"
  shows "\<exists>s'. run cs s = Inr s' \<and> reachable s'
     \<and> length' s' = length' s + length cs
     \<and> color s' = color s
     \<and> (int (length' s + length cs) \<le> sbSize s \<longrightarrow> sbSize s' = sbSize s)
     \<and> filter is_draw (gl s') = filter is_draw (gl s)
     \<and> take (36 * length' s) (stream s') = take (36 * length' s) (stream s)
     \<and> map (vertex_position (stream s')) [4 * length' s ..< 4 * length' s']
         = concat (map direct_positions cs)
     \<and> map (vertex_region (stream s')) [4 * length' s ..< 4 * length' s']
         = concat (map direct_regions cs)
     \<and> (\<forall>v \<in> set [4 * length' s ..< 4 * length' s']. vertex_color (stream s') v = color s)"
  using assms
proof (induction cs arbitrary: s)
  case Nil
  then show ?case by simp
next
  case (Cons c cs)
  from Cons.prems(3) have pc: "plain_draw c" by simp
  then obtain img x y w h rx ry rw rh ox oy
    where c: "c = DrawImage img x y w h rx ry rw rh 0 ox oy"
    by (cases c) auto
  let ?n = "length' s"
  have n: "?n < MAX_LENGTH" using Cons.prems(4) by simp
  then have slot: "pending_slot s = ?n" by (simp add: pending_slot_def)
  from draw_fields [OF Cons.prems(1,2), of img x y w h rx ry rw rh 0 ox oy]
  obtain s1 where s1: "drawImage img x y w h rx ry rw rh 0 ox oy s = Inr s1"
    "reachable s1" "length' s1 = Suc ?n"
    "map (vertex_position (stream s1)) (quad_vertices ?n) = corners x y w h 0 ox oy s"
    "map (vertex_color (stream s1)) (quad_vertices ?n) = [color s, color s, color s, color s]"
    "map (vertex_region (stream s1)) (quad_vertices ?n) = direct_regions c"
    unfolding slot c direct_regions.simps by metis
  from reachable_visible_draw [OF Cons.prems(1,2), of img x y w h rx ry rw rh 0 ox oy]
  have s1': "take (36 * ?n) (stream s1) = take (36 * ?n) (stream s)" "color s1 = color s"
    "gl s1 = gl (snd (uploadImage img s))"
    "sbSize s1 = (if sbSize s \<le> int ?n then 2 * sbSize s else sbSize s)"
    using n by (auto simp: s1(1) slot)
  have pos1: "map (vertex_position (stream s1)) (quad_vertices ?n) = direct_positions c"
    using s1(4) by (simp add: corners_eq rect_corners_def c)
  obtain us where us: "gl s1 = gl s @ us" "\<forall>c \<in> set us. \<not> is_draw c \<and> \<not> writes_index_buffer c"
    using uploadImage_gl [of img s] s1'(3) by auto
  have draws1: "filter is_draw (gl s1) = filter is_draw (gl s)"
    using us by (simp add: filter_empty_conv)
  have "\<exists>s'. run cs s1 = Inr s' \<and> reachable s'
     \<and> length' s' = length' s1 + length cs
     \<and> color s' = color s1
     \<and> (int (length' s1 + length cs) \<le> sbSize s1 \<longrightarrow> sbSize s' = sbSize s1)
     \<and> filter is_draw (gl s') = filter is_draw (gl s1)
     \<and> take (36 * length' s1) (stream s') = take (36 * length' s1) (stream s1)
     \<and> map (vertex_position (stream s')) [4 * length' s1 ..< 4 * length' s']
         = concat (map direct_positions cs)
     \<and> map (vertex_region (stream s')) [4 * length' s1 ..< 4 * length' s']
         = concat (map direct_regions cs)
     \<and> (\<forall>v \<in> set [4 * length' s1 ..< 4 * length' s']. vertex_color (stream s') v = color s1)"
    using Cons.prems by (intro Cons.IH) (simp_all add: s1 s1')
  then obtain s' where s': "run cs s1 = Inr s'" "reachable s'"
     "length' s' = Suc ?n + length cs"
     "color s' = color s"
     "filter is_draw (gl s') = filter is_draw (gl s1)"
     "take (36 * Suc ?n) (stream s') = take (36 * Suc ?n) (stream s1)"
     "map (vertex_position (stream s')) [4 * Suc ?n ..< 4 * length' s']
         = concat (map direct_positions cs)"
     "map (vertex_region (stream s')) [4 * Suc ?n ..< 4 * length' s']
         = concat (map direct_regions cs)"
     "\<forall>v \<in> set [4 * Suc ?n ..< 4 * length' s']. vertex_color (stream s') v = color s"
     "int (Suc ?n + length cs) \<le> sbSize s1 \<longrightarrow> sbSize s' = sbSize s1"
    unfolding s1(3) s1'(2) by metis
  have lt: "?n < length' s'" by (simp add: s'(3))
  have same: "vertex_position (stream s') v = vertex_position (stream s1) v"
    "vertex_region (stream s') v = vertex_region (stream s1) v"
    "vertex_color (stream s') v = vertex_color (stream s1) v"
    if "v \<in> set (quad_vertices ?n)" for v
    using vertex_prefix [OF s'(6) quad_vertices_bound [OF that]] by simp_all
  have q_pos: "map (vertex_position (stream s')) (quad_vertices ?n) = direct_positions c"
    using same(1) pos1 by (metis (no_types, lifting) map_eq_conv)
  have q_reg: "map (vertex_region (stream s')) (quad_vertices ?n) = direct_regions c"
    using same(2) s1(6) by (metis (no_types, lifting) map_eq_conv)
  have q_col: "\<forall>v \<in> set (quad_vertices ?n). vertex_color (stream s') v = color s"
  proof
    fix v assume v: "v \<in> set (quad_vertices ?n)"
    then have "vertex_color (stream s1) v \<in> set (map (vertex_color (stream s1)) (quad_vertices ?n))"
      by simp
    then have "vertex_color (stream s1) v = color s" unfolding s1(5) by simp
    then show "vertex_color (stream s') v = color s" using same(3) [OF v] by simp
  qed
  have pre: "take (36 * ?n) (stream s') = take (36 * ?n) (stream s)"
    using take_take_le [OF _ s'(6), of "36 * ?n"] s1'(1) by simp
  have "run (c # cs) s = Inr s'" by (simp add: c s1(1) s'(1))
  moreover have "length' s' = ?n + length (c # cs)" by (simp add: s'(3))
  moreover have "filter is_draw (gl s') = filter is_draw (gl s)" by (simp add: s'(5) draws1)
  moreover have "map (vertex_position (stream s')) [4 * ?n ..< 4 * length' s']
         = concat (map direct_positions (c # cs))"
  proof -
    have "map (vertex_position (stream s')) [4 * ?n ..< 4 * length' s']
         = direct_positions c @ concat (map direct_positions cs)"
      unfolding upt_quads [OF lt] map_append q_pos s'(7) by (rule refl)
    then show ?thesis by simp
  qed
  moreover have "map (vertex_region (stream s')) [4 * ?n ..< 4 * length' s']
         = concat (map direct_regions (c # cs))"
  proof -
    have "map (vertex_region (stream s')) [4 * ?n ..< 4 * length' s']
         = direct_regions c @ concat (map direct_regions cs)"
      unfolding upt_quads [OF lt] map_append q_reg s'(8) by (rule refl)
    then show ?thesis by simp
  qed
  moreover have "\<forall>v \<in> set [4 * ?n ..< 4 * length' s']. vertex_color (stream s') v = color s"
    unfolding upt_quads [OF lt] using q_col s'(9) by auto
  moreover have "int (?n + length (c # cs)) \<le> sbSize s \<longrightarrow> sbSize s' = sbSize s"
    using s'(10) s1'(4) by auto
  ultimately show ?case using s'(2,4) pre by blast
qed

lemma stream_room:
  assumes "reachable s"
  shows "36 * length' s \<le> length (stream s)"
proof -
  from reachable_inv [OF assms] have "int (length' s) \<le> sbSize s"
    and "length (stream s) = nat (sbSize s) * 36"
    by (simp_all add: renderer_inv_def buffer_inv_def layout_defs)
  then show ?thesis by (simp add: nat_le_iff)
qed

text \<open>
  Claim C2. Starting from a reachable renderer with nothing pending and a visible draw
  colour, \<open>N\<close> calls of \<open>drawImage\<close> without rotation (on images with non-zero
  dimensions), \<open>N\<close> below the cap, all succeed and issue no draw call; the flush that
  follows uploads \<open>N\<close> quads and draws \<open>N * 6\<close> indices (nothing for \<open>N = 0\<close>). In the
  uploaded data the vertices come in call order, four per call, with the positions
  \<open>(x, y)\<close>, \<open>(x + w, y)\<close>, \<open>(x, y + h)\<close>, \<open>(x + w, y + h)\<close>, the regions divided by the
  image dimensions, and the draw colour. In the witness, the region \<open>(25, 25, 50, 50)\<close>
  of a 100x100 image gives the corners \<open>(1/4, 1/4)\<close> and \<open>(3/4, 3/4)\<close>.
\<close>

theorem batch_flush:
  assumes "reachable s" and "length' s = 0" and "\<not> alpha (color s) < 1 / 256"
    and "\<forall>c \<in> set cs. plain_draw c" and "length cs < MAX_LENGTH"
  shows "\<exists>s' data. run cs s = Inr s'
     \<and> filter is_draw (gl s') = filter is_draw (gl s)
     \<and> gl (flush s') = gl s' @ (if cs = [] then []
          else [BufferSubData ARRAY_BUFFER 0 data, DrawElements (length cs * INDICES_PER_QUAD)])
     \<and> length data = length cs * (ELEMENT_SIZE * ELEMENTS_PER_QUAD)
     \<and> map (vertex_position data) [0 ..< ELEMENTS_PER_QUAD * length cs]
         = concat (map direct_positions cs)
     \<and> map (vertex_region data) [0 ..< ELEMENTS_PER_QUAD * length cs]
         = concat (map direct_regions cs)
     \<and> (\<forall>v \<in> set [0 ..< ELEMENTS_PER_QUAD * length cs]. vertex_color data v = color s)"
proof -
  have le: "length' s + length cs \<le> MAX_LENGTH" using assms(2,5) by simp
  from run_plain [OF assms(1,3,4) le]
  obtain s' where s': "run cs s = Inr s'" "reachable s'"
     "length' s' = length' s + length cs"
     "filter is_draw (gl s') = filter is_draw (gl s)"
     "map (vertex_position (stream s')) [4 * length' s ..< 4 * length' s']
         = concat (map direct_positions cs)"
     "map (vertex_region (stream s')) [4 * length' s ..< 4 * length' s']
         = concat (map direct_regions cs)"
     "\<forall>v \<in> set [4 * length' s ..< 4 * length' s']. vertex_color (stream s') v = color s"
    by metis
  have n: "length' s' = length cs" using s'(3) assms(2) by simp
  have z: "4 * length' s = 0" using assms(2) by simp
  note pos = s'(5) [unfolded z n]
  note reg = s'(6) [unfolded z n]
  note col = s'(7) [unfolded z n]
  define data where "data = take (36 * length cs) (stream s')"
  have "36 * length cs \<le> length (stream s')"
    using stream_room [OF s'(2)] unfolding n .
  then have len: "length data = length cs * 36"
    unfolding data_def by simp
  have tk: "take (36 * length cs) data = take (36 * length cs) (stream s')"
    unfolding data_def by simp
  have same: "vertex_position data v = vertex_position (stream s') v"
    "vertex_region data v = vertex_region (stream s') v"
    "vertex_color data v = vertex_color (stream s') v" if "v < 4 * length cs" for v
  proof -
    have "v * 9 + 9 \<le> 36 * length cs" using that by simp
    from vertex_prefix [OF tk this]
    show "vertex_position data v = vertex_position (stream s') v"
      "vertex_region data v = vertex_region (stream s') v"
      "vertex_color data v = vertex_color (stream s') v" by simp_all
  qed
  have c: "\<forall>v \<in> set [0 ..< 4 * length cs]. vertex_color data v = color s"
    using col same(3) by simp
  have "map (vertex_position data) [0 ..< 4 * length cs]
      = map (vertex_position (stream s')) [0 ..< 4 * length cs]"
    by (rule map_cong [OF refl]) (simp add: same)
  then have p: "map (vertex_position data) [0 ..< 4 * length cs] = concat (map direct_positions cs)"
    unfolding pos .
  have "map (vertex_region data) [0 ..< 4 * length cs]
      = map (vertex_region (stream s')) [0 ..< 4 * length cs]"
    by (rule map_cong [OF refl]) (simp add: same)
  then have r: "map (vertex_region data) [0 ..< 4 * length cs] = concat (map direct_regions cs)"
    unfolding reg .
  have g: "gl (flush s') = gl s' @ (if cs = [] then []
          else [BufferSubData ARRAY_BUFFER 0 data, DrawElements (length cs * INDICES_PER_QUAD)])"
    unfolding flush_gl n data_def by simp
  have len': "length data = length cs * (ELEMENT_SIZE * 4)"
    unfolding len by (simp add: layout_defs)
  show ?thesis
    unfolding ELEMENTS_PER_QUAD_def
    by (rule exI [of _ s'], rule exI [of _ data]) (intro conjI s'(1) s'(4) g len' p r c)
qed

theorem batch_flush_witness:
  "reachable example_renderer \<and> length' example_renderer = 0
   \<and> \<not> alpha (color example_renderer) < 1 / 256
   \<and> plain_draw example_region_draw
   \<and> length [example_region_draw] < MAX_LENGTH
   \<and> (\<exists>s' data. run [example_region_draw] example_renderer = Inr s'
        \<and> gl (flush s') = gl s' @ [BufferSubData ARRAY_BUFFER 0 data, DrawElements 6]
        \<and> length data = 36
        \<and> map (vertex_position data) [0 ..< 4] = [(10, 20), (60, 20), (10, 70), (60, 70)]
        \<and> map (vertex_region data) [0 ..< 4]
            = [(1 / 4, 1 / 4), (3 / 4, 1 / 4), (1 / 4, 3 / 4), (3 / 4, 3 / 4)])"
proof -
  have z: "length' example_renderer = 0" by (simp add: example_fields)
  have vis: "\<not> alpha (color example_renderer) < 1 / 256" by (simp add: example_fields)
  have pl: "\<forall>c \<in> set [example_region_draw]. plain_draw c"
    by (simp add: example_region_draw_def example_image_def)
  have n: "length [example_region_draw] < MAX_LENGTH" by (simp add: MAX_LENGTH_def)
  from batch_flush [OF example_reachable z vis pl n]
  have "\<exists>s' data. run [example_region_draw] example_renderer = Inr s'
        \<and> gl (flush s') = gl s' @ [BufferSubData ARRAY_BUFFER 0 data, DrawElements 6]
        \<and> length data = 36
        \<and> map (vertex_position data) [0 ..< 4] = [(10, 20), (60, 20), (10, 70), (60, 70)]
        \<and> map (vertex_region data) [0 ..< 4]
            = [(1 / 4, 1 / 4), (3 / 4, 1 / 4), (1 / 4, 3 / 4), (3 / 4, 3 / 4)]"
    unfolding example_region_draw_def
    by (elim exE conjE, intro exI conjI)
      (simp_all add: layout_defs example_image_def del: upt_Suc upt_rec_numeral run.simps)
  then show ?thesis using example_reachable z vis pl n by simp
qed

subsection \<open>The capacity of the stream buffer\<close>

lemma example_batch:
  assumes "n \<le> MAX_LENGTH"
  shows "run (replicate n example_region_draw) example_renderer = Inr (example_batch n)"
    and "reachable (example_batch n)"
    and "length' (example_batch n) = n"
    and "color (example_batch n) = (1, 1, 1, 1)"
    and "n \<le> 256 \<Longrightarrow> sbSize (example_batch n) = 256"
proof -
  have vis: "\<not> alpha (color example_renderer) < 1 / 256" by (simp add: example_fields)
  have pl: "\<forall>c \<in> set (replicate n example_region_draw). plain_draw c"
    by (simp add: example_region_draw_def example_image_def)
  have le: "length' example_renderer + length (replicate n example_region_draw) \<le> MAX_LENGTH"
    using assms by (simp add: example_fields)
  from run_plain [OF example_reachable vis pl le]
  obtain s' where s': "run (replicate n example_region_draw) example_renderer = Inr s'"
    "reachable s'"
    "length' s' = length' example_renderer + length (replicate n example_region_draw)"
    "color s' = color example_renderer"
    "int (length' example_renderer + length (replicate n example_region_draw))
       \<le> sbSize example_renderer \<longrightarrow> sbSize s' = sbSize example_renderer"
    by metis
  have e: "example_batch n = s'" by (simp add: example_batch_def s'(1))
  show "run (replicate n example_region_draw) example_renderer = Inr (example_batch n)"
    "reachable (example_batch n)" "length' (example_batch n) = n"
    "color (example_batch n) = (1, 1, 1, 1)"
    using s'(1-4) by (simp_all add: e example_fields)
  show "sbSize (example_batch n) = 256" if "n \<le> 256"
    using s'(5) that by (simp add: e example_fields)
qed

lemma reachable_capacity:
  assumes "reachable s"
  shows "256 \<le> sbSize s" and "\<exists>k. sbSize s = 2 ^ k" and "int (length' s) \<le> sbSize s"
    and "length' s \<le> MAX_LENGTH"
proof -
  from reachable_inv [OF assms] obtain k where k: "8 \<le> k" "k \<le> 14" "sbSize s = 2 ^ k"
    and l: "int (length' s) \<le> sbSize s" "length' s \<le> MAX_LENGTH"
    by (auto simp: renderer_inv_def buffer_inv_def)
  show "256 \<le> sbSize s" using pow2_bounds(1) [OF k(1,2)] k(3) by simp
  show "\<exists>k. sbSize s = 2 ^ k" using k(3) by blast
  show "int (length' s) \<le> sbSize s" "length' s \<le> MAX_LENGTH" by (rule l)+
qed

lemma step_sbSize:
  assumes r: "reachable s" and st: "step c s = Inr s'"
  shows "sbSize s' = (if exceeds_capacity c s then 2 * sbSize s else sbSize s)"
proof (cases c)
  case (DrawImage img x y w h rx ry rw rh ang ox oy)
  show ?thesis
  proof (cases "alpha (color s) < 1 / 256")
    case True
    with st DrawImage show ?thesis by (simp add: drawImage_def)
  next
    case False
    from reachable_visible_draw [OF r False, of img x y w h rx ry rw rh ang ox oy] st
    show ?thesis using False by (auto simp: DrawImage)
  qed
next
  case (UploadImage i)
  with st show ?thesis by auto
qed (use st in \<open>auto simp: reset_def clear_def setProjection_def setClearColor_def Let_def\<close>)

lemma resizeSB_prefix:
  assumes "resizeSB t = Inr t'"
  shows "take (length (stream t)) (stream t') = stream t" and "length' t' = length' t"
  using assms
  by (auto simp: resizeSB_def Let_def typed_set_def split: if_splits)

text \<open>
  Claim C6. The capacity \<open>sbSize\<close> is 256 after construction and a power of two in every
  reachable state. A call doubles it exactly when it is a \<open>drawImage\<close> whose write would
  exceed it, and leaves it alone otherwise. \<open>resizeSB\<close> keeps the whole old array as the
  prefix of the new one, element for element, and the pending count: the \<open>K\<close> quads
  written before a growth read back the same afterwards, also when the growth is
  followed by the store of the new quad.
\<close>

theorem stream_capacity:
  "(constructor cv = Inr s0 \<longrightarrow> sbSize s0 = 256)
   \<and> (reachable s \<longrightarrow> (\<exists>k. sbSize s = 2 ^ k))
   \<and> (reachable s \<longrightarrow> step c s = Inr s' \<longrightarrow>
        sbSize s' = (if exceeds_capacity c s then 2 * sbSize s else sbSize s))
   \<and> (resizeSB t = Inr t' \<longrightarrow>
        take (length (stream t)) (stream t') = stream t \<and> length' t' = length' t)
   \<and> (reachable s \<longrightarrow> exceeds_capacity c s \<longrightarrow>
        (\<exists>s''. step c s = Inr s'' \<and> sbSize s'' = 2 * sbSize s
           \<and> take (length' s * (ELEMENT_SIZE * ELEMENTS_PER_QUAD)) (stream s'')
               = take (length' s * (ELEMENT_SIZE * ELEMENTS_PER_QUAD)) (stream s)))"
proof (intro conjI impI)
  assume "constructor cv = Inr s0"
  then show "sbSize s0 = 256" by (rule constructor_fields)
next
  assume "reachable s"
  then show "\<exists>k. sbSize s = 2 ^ k" by (rule reachable_capacity)
next
  assume "reachable s" "step c s = Inr s'"
  then show "sbSize s' = (if exceeds_capacity c s then 2 * sbSize s else sbSize s)"
    by (rule step_sbSize)
next
  assume "resizeSB t = Inr t'"
  then show "take (length (stream t)) (stream t') = stream t" "length' t' = length' t"
    by (rule resizeSB_prefix)+
next
  assume r: "reachable s" and e: "exceeds_capacity c s"
  from e obtain img x y w h rx ry rw rh ang ox oy
    where c: "c = DrawImage img x y w h rx ry rw rh ang ox oy"
    by (cases c) auto
  from e have vis: "\<not> alpha (color s) < 1 / 256" and full: "sbSize s \<le> int (pending_slot s)"
    by (simp_all add: c)
  have slot: "pending_slot s = length' s"
    using full reachable_capacity(1) [OF r] by (auto simp: pending_slot_def split: if_splits)
  from reachable_visible_draw [OF r vis, of img x y w h rx ry rw rh ang ox oy]
  obtain s'' where s'': "drawImage img x y w h rx ry rw rh ang ox oy s = Inr s''"
    "sbSize s'' = (if sbSize s \<le> int (pending_slot s) then 2 * sbSize s else sbSize s)"
    "take (36 * pending_slot s) (stream s'') = take (36 * pending_slot s) (stream s)"
    by metis
  have "step c s = Inr s''" by (simp add: c s''(1))
  moreover have "sbSize s'' = 2 * sbSize s" using s''(2) full by simp
  moreover have "take (length' s * (ELEMENT_SIZE * ELEMENTS_PER_QUAD)) (stream s'')
               = take (length' s * (ELEMENT_SIZE * ELEMENTS_PER_QUAD)) (stream s)"
    using s''(3) unfolding quad_size slot by (simp add: mult.commute)
  ultimately show "\<exists>s''. step c s = Inr s'' \<and> sbSize s'' = 2 * sbSize s
           \<and> take (length' s * (ELEMENT_SIZE * ELEMENTS_PER_QUAD)) (stream s'')
               = take (length' s * (ELEMENT_SIZE * ELEMENTS_PER_QUAD)) (stream s)"
    by blast
qed

theorem stream_capacity_witness:
  "constructor example_canvas = Inr example_renderer \<and> sbSize example_renderer = 256
   \<and> reachable (example_batch 256) \<and> length' (example_batch 256) = 256
   \<and> sbSize (example_batch 256) = 2 ^ 8
   \<and> exceeds_capacity example_region_draw (example_batch 256)
   \<and> (\<exists>s''. step example_region_draw (example_batch 256) = Inr s'' \<and> sbSize s'' = 512
         \<and> take (256 * 36) (stream s'') = take (256 * 36) (stream (example_batch 256)))
   \<and> step Flush (example_batch 256) = Inr (flush (example_batch 256))
   \<and> sbSize (flush (example_batch 256)) = 256"
proof -
  have le: "(256 :: nat) \<le> MAX_LENGTH" by (simp add: MAX_LENGTH_def)
  note b = example_batch [OF le]
  have sz: "sbSize (example_batch 256) = 256" using b(5) by simp
  have ex: "exceeds_capacity example_region_draw (example_batch 256)"
    by (simp add: example_region_draw_def b sz pending_slot_def MAX_LENGTH_def)
  have fl: "step Flush (example_batch 256) = Inr (flush (example_batch 256))" by simp
  note inst = stream_capacity [where cv = example_canvas and ?s0.0 = example_renderer
      and s = "example_batch 256"]
  have "sbSize example_renderer = 256"
    using inst [where c = Flush] example_constructed by blast
  moreover have "\<exists>s''. step example_region_draw (example_batch 256) = Inr s''
         \<and> sbSize s'' = 2 * sbSize (example_batch 256)
         \<and> take (length' (example_batch 256) * (ELEMENT_SIZE * ELEMENTS_PER_QUAD)) (stream s'')
             = take (length' (example_batch 256) * (ELEMENT_SIZE * ELEMENTS_PER_QUAD))
                 (stream (example_batch 256))"
    using inst [where c = example_region_draw] b(2) ex by blast
  moreover have "sbSize (flush (example_batch 256))
      = (if exceeds_capacity Flush (example_batch 256) then 2 * sbSize (example_batch 256)
         else sbSize (example_batch 256))"
    using inst [where c = Flush and s' = "flush (example_batch 256)"] b(2) fl by blast
  ultimately show ?thesis
    using example_constructed b(2,3) sz ex fl by (simp add: quad_size)
qed

subsection \<open>The cap of a batch\<close>

lemma drawImage_at_cap:
  assumes "length' s = MAX_LENGTH" and "\<not> alpha (color s) < 1 / 256"
  shows "drawImage img x y w h rx ry rw rh ang ox oy s
       = drawImage img x y w h rx ry rw rh ang ox oy (flush s)"
  using assms by (simp add: drawImage_def MAX_LENGTH_def)

text \<open>
  Claim C4. When \<open>drawImage\<close> is called on a reachable renderer with \<open>MAX_LENGTH\<close>
  pending quads (and a visible colour, so that it writes), it behaves as the same call
  on the flushed renderer: the flush uploads the \<open>MAX_LENGTH\<close> pending quads, issues one
  draw call of \<open>MAX_LENGTH * 6\<close> indices and resets offset and count, and then the quad of
  the call is stored at the start of the buffer, leaving one pending quad and no
  further draw call. In every reachable state the pending count is at most
  \<open>MAX_LENGTH\<close>, and every draw call in the log is for at most \<open>MAX_LENGTH * 6\<close> indices,
  the length of the index table.
\<close>

theorem cap_flush:
  "(reachable s \<longrightarrow> \<not> alpha (color s) < 1 / 256 \<longrightarrow> length' s = MAX_LENGTH \<longrightarrow>
      drawImage img x y w h rx ry rw rh ang ox oy s
        = drawImage img x y w h rx ry rw rh ang ox oy (flush s)
      \<and> flush s = s\<lparr>gl := gl s @ [BufferSubData ARRAY_BUFFER 0
                                     (take (MAX_LENGTH * ELEMENT_SIZE * ELEMENTS_PER_QUAD) (stream s)),
                                   DrawElements (MAX_LENGTH * INDICES_PER_QUAD)],
                     sbOffset := 0, length' := 0\<rparr>
      \<and> (\<exists>s' cs. drawImage img x y w h rx ry rw rh ang ox oy s = Inr s'
            \<and> length' s' = 1 \<and> sbOffset s' = ELEMENT_SIZE * ELEMENTS_PER_QUAD
            \<and> take (ELEMENT_SIZE * ELEMENTS_PER_QUAD) (stream s')
                = written_quad img x y w h rx ry rw rh ang ox oy s
            \<and> gl s' = gl (flush s) @ cs \<and> (\<forall>c \<in> set cs. \<not> is_draw c)))
   \<and> (reachable s \<longrightarrow> length' s \<le> MAX_LENGTH)
   \<and> (reachable s \<longrightarrow>
        (\<forall>n. DrawElements n \<in> set (gl s) \<longrightarrow>
           n \<le> MAX_LENGTH * INDICES_PER_QUAD \<and> n \<le> length createIB))"
proof (intro conjI impI allI)
  assume r: "reachable s" and vis: "\<not> alpha (color s) < 1 / 256" and full: "length' s = MAX_LENGTH"
  show "drawImage img x y w h rx ry rw rh ang ox oy s
        = drawImage img x y w h rx ry rw rh ang ox oy (flush s)"
    using full vis by (rule drawImage_at_cap)
  show "flush s = s\<lparr>gl := gl s @ [BufferSubData ARRAY_BUFFER 0
                                     (take (MAX_LENGTH * ELEMENT_SIZE * ELEMENTS_PER_QUAD) (stream s)),
                                   DrawElements (MAX_LENGTH * INDICES_PER_QUAD)],
                     sbOffset := 0, length' := 0\<rparr>"
    using full by (simp add: flush_def Let_def MAX_LENGTH_def)
  have slot: "pending_slot s = 0" using full by (simp add: pending_slot_def)
  from reachable_visible_draw [OF r vis, of img x y w h rx ry rw rh ang ox oy]
  obtain s' where s': "drawImage img x y w h rx ry rw rh ang ox oy s = Inr s'"
    "length' s' = Suc (pending_slot s)"
    "sbOffset s' = 36 * pending_slot s + 36"
    "take 36 (drop (36 * pending_slot s) (stream s')) = written_quad img x y w h rx ry rw rh ang ox oy s"
    "gl s' = gl (snd (uploadImage img (if MAX_LENGTH \<le> length' s then flush s else s)))"
    by metis
  obtain cs where cs: "gl (snd (uploadImage img (flush s))) = gl (flush s) @ cs"
    "\<forall>c \<in> set cs. \<not> is_draw c \<and> \<not> writes_index_buffer c"
    using uploadImage_gl [of img "flush s"] by auto
  have "length' s' = 1" "sbOffset s' = ELEMENT_SIZE * ELEMENTS_PER_QUAD"
    "take (ELEMENT_SIZE * ELEMENTS_PER_QUAD) (stream s')
       = written_quad img x y w h rx ry rw rh ang ox oy s"
    "gl s' = gl (flush s) @ cs" "\<forall>c \<in> set cs. \<not> is_draw c"
    using s'(2-5) cs by (simp_all add: slot quad_size full)
  with s'(1) show "\<exists>s' cs. drawImage img x y w h rx ry rw rh ang ox oy s = Inr s'
            \<and> length' s' = 1 \<and> sbOffset s' = ELEMENT_SIZE * ELEMENTS_PER_QUAD
            \<and> take (ELEMENT_SIZE * ELEMENTS_PER_QUAD) (stream s')
                = written_quad img x y w h rx ry rw rh ang ox oy s
            \<and> gl s' = gl (flush s) @ cs \<and> (\<forall>c \<in> set cs. \<not> is_draw c)"
    by blast
next
  assume "reachable s"
  then show "length' s \<le> MAX_LENGTH" by (rule reachable_capacity)
next
  fix n assume r: "reachable s" and d: "DrawElements n \<in> set (gl s)"
  from reachable_inv [OF r] d show "n \<le> MAX_LENGTH * INDICES_PER_QUAD"
    by (simp add: renderer_inv_def log_inv_def)
  then show "n \<le> length createIB" by (simp add: createIB_length)
qed

theorem cap_flush_witness:
  "reachable (example_batch 16000) \<and> \<not> alpha (color (example_batch 16000)) < 1 / 256
   \<and> length' (example_batch 16000) = MAX_LENGTH
   \<and> gl (flush (example_batch 16000))
       = gl (example_batch 16000) @
           [BufferSubData ARRAY_BUFFER 0 (take 576000 (stream (example_batch 16000))),
            DrawElements 96000]
   \<and> (\<exists>s' cs. step example_region_draw (example_batch 16000) = Inr s'
         \<and> length' s' = 1 \<and> sbOffset s' = 36 \<and> length' s' \<le> MAX_LENGTH
         \<and> gl s' = gl (flush (example_batch 16000)) @ cs
         \<and> DrawElements 96000 \<in> set (gl s') \<and> (96000 :: nat) \<le> length createIB)"
proof -
  have le: "(16000 :: nat) \<le> MAX_LENGTH" by (simp add: MAX_LENGTH_def)
  note b = example_batch [OF le]
  have vis: "\<not> alpha (color (example_batch 16000)) < 1 / 256" by (simp add: b)
  have full: "length' (example_batch 16000) = MAX_LENGTH" by (simp add: b MAX_LENGTH_def)
  note inst = cap_flush [where s = "example_batch 16000" and img = example_image
      and x = 10 and y = 20 and w = 50 and h = 50 and rx = 25 and ry = 25 and rw = 50 and rh = 50
      and ang = 0 and ox = 0 and oy = 0]
  from inst b(2) vis full
  have f: "flush (example_batch 16000) = (example_batch 16000)\<lparr>gl := gl (example_batch 16000) @
        [BufferSubData ARRAY_BUFFER 0
           (take (MAX_LENGTH * ELEMENT_SIZE * ELEMENTS_PER_QUAD) (stream (example_batch 16000))),
         DrawElements (MAX_LENGTH * INDICES_PER_QUAD)],
        sbOffset := 0, length' := 0\<rparr>"
    by blast
  have g: "gl (flush (example_batch 16000))
       = gl (example_batch 16000) @
           [BufferSubData ARRAY_BUFFER 0 (take 576000 (stream (example_batch 16000))),
            DrawElements 96000]"
    unfolding f by (simp add: MAX_LENGTH_def layout_defs)
  from inst b(2) vis full
  obtain s' cs where s': "drawImage example_image 10 20 50 50 25 25 50 50 0 0 0 (example_batch 16000) = Inr s'"
    "length' s' = 1" "sbOffset s' = ELEMENT_SIZE * ELEMENTS_PER_QUAD"
    "gl s' = gl (flush (example_batch 16000)) @ cs"
    by blast
  have st: "step example_region_draw (example_batch 16000) = Inr s'"
    by (simp add: example_region_draw_def s'(1))
  have r': "reachable s'" using reachable_step [OF b(2) st] .
  have d: "DrawElements 96000 \<in> set (gl s')" unfolding s'(4) g by simp
  from cap_flush [where s = s'] r' d
  have "length' s' \<le> MAX_LENGTH" "96000 \<le> length createIB"
    by blast+
  with st s'(2,3,4) d
  have "\<exists>s' cs. step example_region_draw (example_batch 16000) = Inr s'
         \<and> length' s' = 1 \<and> sbOffset s' = 36 \<and> length' s' \<le> MAX_LENGTH
         \<and> gl s' = gl (flush (example_batch 16000)) @ cs
         \<and> DrawElements 96000 \<in> set (gl s') \<and> (96000 :: nat) \<le> length createIB"
    by (auto simp: quad_size)
  then show ?thesis using b(2) vis full g by blast
qed

end
